theory Spec2Isabelle
  imports Main "HOL-Library.AList" "HOL-Library.Word"
begin

section \<open>JavaScript strings\<close>

text \<open>
  The two Lambda@Edge handlers of the repository work on strings: the request URI, the
  query string and header values. A string is a \<^typ>\<open>string\<close>, a list of 8-bit
  characters. CloudFront delivers the URI and the query string as ASCII, where the model
  is exact; characters beyond the 8-bit range are not modelled. Of the four JavaScript
  line terminators (LF, CR, U+2028, U+2029), LF and CR are characters of this type.
\<close>

text \<open>
  \<^verbatim>\<open>String.prototype.split(sep)\<close> with a one-character separator: the pieces between
  the occurrences of the separator. The result is never empty; a string without the
  separator yields the string itself as the only piece.
\<close>

function split_on :: "char \<Rightarrow> string \<Rightarrow> string list" where
  "split_on sep s =
     (case dropWhile (\<lambda>c. c \<noteq> sep) s of
        [] \<Rightarrow> [s]
      | _ # rest \<Rightarrow> takeWhile (\<lambda>c. c \<noteq> sep) s # split_on sep rest)"
  by pat_completeness auto
termination
proof (relation "measure (\<lambda>(sep, s). length s)")
  show "wf (measure (\<lambda>(sep, s). length s))" by simp
next
  fix sep :: char and s :: string and x :: char and rest :: string
  assume a: "dropWhile (\<lambda>c. c \<noteq> sep) s = x # rest"
  have "length (dropWhile (\<lambda>c. c \<noteq> sep) s) \<le> length s"
    by (rule length_dropWhile_le)
  with a show "((sep, rest), (sep, s)) \<in> measure (\<lambda>(sep, s). length s)"
    by simp
qed

declare split_on.simps [simp del]

text \<open>\<^verbatim>\<open>String.prototype.includes(t)\<close>: \<open>t\<close> occurs in \<open>s\<close> at some position.\<close>

fun str_includes :: "string \<Rightarrow> string \<Rightarrow> bool" where
  "str_includes [] t = (t = [])"
| "str_includes (c # cs) t = (take (length t) (c # cs) = t \<or> str_includes cs t)"

text \<open>An ASCII character: its code is below 128.\<close>

definition is_ascii :: "char \<Rightarrow> bool" where
  "is_ascii c = ((of_char c :: nat) < 128)"

section \<open>Regular expressions of the handlers\<close>

text \<open>
  Both handlers parse with one regular expression each:
  \<^verbatim>\<open>/\/(.+)\/([^/]+)\.([^.]+)$/\<close> in the viewer-request handler and
  \<^verbatim>\<open>/^resize\/(.+)\/(\d+)x(\d+)\/([^/]+)\/(.+)$/\<close> in the origin-response handler.
  They are sequences of literal characters, captured greedy repetitions \<open>(C+)\<close> of a
  character class \<open>C\<close>, and the end anchor. \<open>rmatch\<close> is the backtracking matcher of
  ECMAScript on this fragment: a greedy repetition first takes the longest run of the class
  and gives characters back one at a time until the rest of the pattern matches. The result
  holds the captures in order (the whole match, index 0 of the JavaScript match array, is
  not kept: capture \<open>k\<close> of the source is element \<open>k - 1\<close> here).
\<close>

datatype atom = Lit char | Plus "char \<Rightarrow> bool" | Eos

fun first_some :: "('a \<Rightarrow> 'b option) \<Rightarrow> 'a list \<Rightarrow> 'b option" where
  "first_some f [] = None"
| "first_some f (x # xs) = (case f x of Some y \<Rightarrow> Some y | None \<Rightarrow> first_some f xs)"

fun rmatch :: "atom list \<Rightarrow> string \<Rightarrow> string list option" where
  "rmatch [] s = Some []"
| "rmatch (Eos # rs) s = (if s = [] then rmatch rs s else None)"
| "rmatch (Lit c # rs) s =
     (case s of [] \<Rightarrow> None | x # xs \<Rightarrow> if x = c then rmatch rs xs else None)"
| "rmatch (Plus P # rs) s =
     first_some (\<lambda>n. map_option ((#) (take n s)) (rmatch rs (drop n s)))
       (rev [1..<Suc (length (takeWhile P s))])"

declare rmatch.simps(4) [simp del]

text \<open>A pattern that starts with \<open>^\<close> is tried at the start of the string only.\<close>

definition match_anchored :: "atom list \<Rightarrow> string \<Rightarrow> string list option" where
  "match_anchored rs s = rmatch rs s"

text \<open>A pattern without \<open>^\<close> is tried at every start position, leftmost first.\<close>

definition match_search :: "atom list \<Rightarrow> string \<Rightarrow> string list option" where
  "match_search rs s = first_some (\<lambda>i. rmatch rs (drop i s)) [0..<Suc (length s)]"

definition line_terminator :: "char \<Rightarrow> bool" where
  "line_terminator c = (c = CHR 0x0A \<or> c = CHR 0x0D)"

text \<open>The class \<open>.\<close> (no \<open>s\<close> flag): every character but a line terminator.\<close>

definition dot :: "char \<Rightarrow> bool" where
  "dot c = (\<not> line_terminator c)"

text \<open>The class \<open>\d\<close>: the ten ASCII digits.\<close>

definition digit :: "char \<Rightarrow> bool" where
  "digit c = (48 \<le> (of_char c :: nat) \<and> (of_char c :: nat) \<le> 57)"

definition not_slash :: "char \<Rightarrow> bool" where
  "not_slash c = (c \<noteq> CHR ''/'')"

definition not_dot :: "char \<Rightarrow> bool" where
  "not_dot c = (c \<noteq> CHR ''.'')"

text \<open>\<^verbatim>\<open>/\/(.+)\/([^/]+)\.([^.]+)$/\<close>\<close>

definition URI_PATTERN :: "atom list" where
  "URI_PATTERN =
     [Lit CHR ''/'', Plus dot, Lit CHR ''/'', Plus not_slash, Lit CHR ''.'', Plus not_dot, Eos]"

text \<open>\<^verbatim>\<open>/^resize\/(.+)\/(\d+)x(\d+)\/([^/]+)\/(.+)$/\<close>\<close>

definition KEY_PATTERN :: "atom list" where
  "KEY_PATTERN =
     map Lit ''resize/'' @
     [Plus dot, Lit CHR ''/'', Plus digit, Lit CHR ''x'', Plus digit, Lit CHR ''/'',
      Plus not_slash, Lit CHR ''/'', Plus dot, Eos]"

section \<open>URLSearchParams\<close>

text \<open>
  \<^verbatim>\<open>new URLSearchParams(querystring)\<close> follows the application/x-www-form-urlencoded
  parser of the URL standard: one leading \<open>?\<close> is dropped, the input is split on \<open>&\<close>,
  empty pieces are skipped, each piece is cut at its first \<open>=\<close> into name and value (the
  value is empty when there is no \<open>=\<close>), \<open>+\<close> becomes a space and percent escapes are
  decoded. The result is the list of name-value pairs in order.

  Scope: a percent escape stands for one character here, where the standard goes on to
  decode the escaped bytes as UTF-8. The two agree on a name or value whose decoded bytes
  are all ASCII, and on whether a name is \<open>d\<close>; they differ on the text of a name or
  value with an escape of \<open>%80\<close> or above (\<open>%C3%A9\<close> is one character U+00E9 for the
  standard and two characters here). A statement about the text of a decoded value
  therefore takes the value to be ASCII.
\<close>

definition is_hex :: "char \<Rightarrow> bool" where
  "is_hex c = (digit c \<or> (65 \<le> (of_char c :: nat) \<and> (of_char c :: nat) \<le> 70)
                       \<or> (97 \<le> (of_char c :: nat) \<and> (of_char c :: nat) \<le> 102))"

definition hex_val :: "char \<Rightarrow> nat" where
  "hex_val c = (if digit c then of_char c - 48
                else if of_char c \<le> (70 :: nat) then of_char c - 55 else of_char c - 87)"

fun percent_decode :: "string \<Rightarrow> string" where
  "percent_decode [] = []"
| "percent_decode (c # cs) =
     (if c = CHR ''%'' \<and> 2 \<le> length cs \<and> is_hex (cs ! 0) \<and> is_hex (cs ! 1)
      then char_of (16 * hex_val (cs ! 0) + hex_val (cs ! 1)) # percent_decode (drop 2 cs)
      else c # percent_decode cs)"

definition plus_to_space :: "string \<Rightarrow> string" where
  "plus_to_space s = map (\<lambda>c. if c = CHR ''+'' then CHR '' '' else c) s"

definition parse_pair :: "string \<Rightarrow> string \<times> string" where
  "parse_pair piece =
     (let name = takeWhile (\<lambda>c. c \<noteq> CHR ''='') piece;
          val = drop 1 (dropWhile (\<lambda>c. c \<noteq> CHR ''='') piece)
      in (percent_decode (plus_to_space name), percent_decode (plus_to_space val)))"

definition URLSearchParams :: "string \<Rightarrow> (string \<times> string) list" where
  "URLSearchParams init =
     map parse_pair
       (filter (\<lambda>piece. piece \<noteq> [])
          (split_on CHR ''&'' (if init \<noteq> [] \<and> hd init = CHR ''?'' then tl init else init)))"

text \<open>\<^verbatim>\<open>params.has(name)\<close>: some pair has the name.\<close>

definition params_has :: "(string \<times> string) list \<Rightarrow> string \<Rightarrow> bool" where
  "params_has params name = list_ex (\<lambda>p. fst p = name) params"

text \<open>\<^verbatim>\<open>params.get(name)\<close>: the value of the first pair with the name, or null.\<close>

definition params_get :: "(string \<times> string) list \<Rightarrow> string \<Rightarrow> string option" where
  "params_get params name = map_option snd (find (\<lambda>p. fst p = name) params)"

section \<open>CloudFront events\<close>

text \<open>
  A CloudFront header map sends a lower-case header name to a list of entries, each with an
  optional original-case \<open>key\<close> and a \<open>value\<close> (field \<open>hvalue\<close> here). A JavaScript object
  is an association list in insertion order: \<^const>\<open>map_of\<close> reads a property and
  \<^const>\<open>AList.update\<close> writes one (in place when the property exists, at the end
  otherwise, as an object spread followed by a property does).
\<close>

record header =
  key :: "string option"
  hvalue :: string

type_synonym header_map = "(string \<times> header list) list"

text \<open>
  The request of the event. The fields the handlers never touch (method, client address,
  and so on) are the extension part of the record.
\<close>

record request =
  uri :: string
  querystring :: string
  headers :: header_map

text \<open>
  \<^verbatim>\<open>headers[name]?.[0]?.value\<close>: the value of the first entry of a header, undefined
  (\<open>None\<close>) when the header is absent or its list is empty.
\<close>

definition header_value :: "header_map \<Rightarrow> string \<Rightarrow> string option" where
  "header_value hs name =
     (case map_of hs name of None \<Rightarrow> None | Some [] \<Rightarrow> None | Some (h # _) \<Rightarrow> Some (hvalue h))"

datatype js_error = TypeError | S3Error string | SharpError string

section \<open>The viewer-request handler (URI rewriter)\<close>

text \<open>
  \<^verbatim>\<open>lambda-functions/viewer-request/index.mjs\<close>. \<open>Inl\<close> is an error thrown out of
  the handler; the only expression of the source that can throw on an event of the
  documented shape is \<^verbatim>\<open>params.get('d').split('x')\<close>, when \<open>get\<close> returns null.
  An undefined \<open>acceptHeader\<close> makes \<^verbatim>\<open>acceptHeader?.includes('webp')\<close> undefined,
  which selects the extension. The source assigns \<open>request.uri\<close> and returns the same
  object: the model returns the record with that one field updated. The line the handler
  writes to the log is not part of the result.
\<close>

definition viewer_handler :: "'a request_scheme \<Rightarrow> js_error + 'a request_scheme" where
  "viewer_handler request =
     (let params = URLSearchParams (querystring request) in
      if \<not> params_has params ''d'' then Inr request
      else
        case match_search URI_PATTERN (uri request) of
          None \<Rightarrow> Inr request
        | Some uriMatch \<Rightarrow>
            (let path = uriMatch ! 0; filename = uriMatch ! 1; extension = uriMatch ! 2 in
             case params_get params ''d'' of
               None \<Rightarrow> Inl TypeError
             | Some d \<Rightarrow>
                 (let dimension = split_on CHR ''x'' d in
                  if length dimension \<noteq> 2 then Inr request
                  else
                    (let acceptHeader = header_value (headers request) ''accept'';
                         format =
                           (case acceptHeader of
                              None \<Rightarrow> extension
                            | Some v \<Rightarrow> if str_includes v ''webp'' then ''webp'' else extension)
                     in Inr (request\<lparr>uri :=
                          ''/resize/'' @ path @ ''/'' @ dimension ! 0 @ ''x'' @ dimension ! 1
                            @ ''/'' @ format @ ''/'' @ filename @ ''.'' @ extension\<rparr>)))))"

section \<open>The origin-response handler (resize orchestrator)\<close>

text \<open>
  The response of the event. CloudFront gives \<open>status\<close> as a string; the handler compares
  it with \<^verbatim>\<open>!==\<close> (no coercion) and synthesises the number 200. A triggering response
  has no body; the synthesised one has \<open>body\<close> and \<open>bodyEncoding\<close>.
\<close>

datatype status_value = StatusString string | StatusNumber int

record response =
  status :: status_value
  statusDescription :: string
  headers :: header_map
  body :: "string option"
  bodyEncoding :: "string option"

type_synonym byte = "8 word"

text \<open>\<^verbatim>\<open>Buffer.prototype.toString('base64')\<close>: RFC 4648 base64 with padding.\<close>

definition b64 :: "nat \<Rightarrow> char" where
  "b64 n = ''ABCDEFGHIJKLMNOPQRSTUVWXYZabcdefghijklmnopqrstuvwxyz0123456789+/'' ! (n mod 64)"

fun base64 :: "byte list \<Rightarrow> string" where
  "base64 (a # b # c # rest) =
     [b64 (unat a div 4), b64 (unat a mod 4 * 16 + unat b div 16),
      b64 (unat b mod 16 * 4 + unat c div 64), b64 (unat c mod 64)] @ base64 rest"
| "base64 [a, b] =
     [b64 (unat a div 4), b64 (unat a mod 4 * 16 + unat b div 16),
      b64 (unat b mod 16 * 4), CHR ''='']"
| "base64 [a] = [b64 (unat a div 4), b64 (unat a mod 4 * 16), CHR ''='', CHR ''='']"
| "base64 [] = []"

text \<open>
  \<^verbatim>\<open>parseInt(s, 10)\<close> on a string of decimal digits (the pattern captures nothing
  else): its value. The source compares the result with 0 and 4000 only, where the exact
  integer and the double that JavaScript computes agree.
\<close>

definition parseInt10 :: "string \<Rightarrow> int" where
  "parseInt10 s = foldl (\<lambda>n c. 10 * n + (int (of_char c) - 48)) 0 s"

definition BUCKET :: string where
  "BUCKET = ''__S3_BUCKET_PLACEHOLDER__''"

definition MAX_DIMENSION :: int where
  "MAX_DIMENSION = 4000"

definition CACHE_CONTROL :: string where
  "CACHE_CONTROL = ''max-age=86400''"

text \<open>
  The commands the handler sends to the object store: a read with its \<open>Bucket\<close> and
  \<open>Key\<close>, a write with its \<open>Bucket\<close>, \<open>Key\<close>, \<open>Body\<close>, \<open>ContentType\<close> and
  \<open>CacheControl\<close>, in this order.
\<close>

datatype s3_command =
    GetObjectCommand string string
  | PutObjectCommand string string "byte list" string string

fun is_put :: "s3_command \<Rightarrow> bool" where
  "is_put (PutObjectCommand bucket k b contentType cacheControl) = True"
| "is_put (GetObjectCommand bucket k) = False"

text \<open>
  The world outside the handler. \<open>s3_get bucket key\<close> is the outcome of sending the
  GetObjectCommand and reading the body to a byte array: the bytes, or the error thrown.
  \<open>sharp_resize image width height format\<close> is the outcome of the sharp pipeline of the
  source (rotate, resize to fit inside width by height without enlargement, toFormat,
  toBuffer). \<open>s3_put\<close> is the outcome of the write, which the source starts and does not
  await; its rejection is logged by the \<open>catch\<close> callback.
\<close>

record env =
  s3_get :: "string \<Rightarrow> string \<Rightarrow> js_error + byte list"
  sharp_resize :: "byte list \<Rightarrow> int \<Rightarrow> int \<Rightarrow> string \<Rightarrow> js_error + byte list"
  s3_put :: "s3_command \<Rightarrow> js_error option"

text \<open>
  \<^verbatim>\<open>lambda-functions/origin-response/index.mjs\<close>. The result is the returned response
  together with the object-store commands sent, in order; \<open>Inl\<close> would be an error thrown
  out of the handler. Every step of the source that can throw stands inside its
  \<^verbatim>\<open>try\<close> block, whose \<^verbatim>\<open>catch\<close> returns the triggering response. The
  object-store client, created with a constant configuration on the first invocation and
  kept for the next ones, plays no part in the result. The promise of the write is not
  awaited: its command is in the list and its outcome is not read.
\<close>

definition origin_handler ::
  "env \<Rightarrow> 'a request_scheme \<Rightarrow> response \<Rightarrow> js_error + response \<times> s3_command list" where
  "origin_handler world request response =
     (if status response \<noteq> StatusString ''404'' \<and> status response \<noteq> StatusString ''403''
      then Inr (response, [])
      else
        (let key = drop 1 (uri request) in
         case match_anchored KEY_PATTERN key of
           None \<Rightarrow> Inr (response, [])
         | Some keyMatch \<Rightarrow>
             (let subpath = keyMatch ! 0; widthStr = keyMatch ! 1; heightStr = keyMatch ! 2;
                  format = keyMatch ! 3; filename = keyMatch ! 4;
                  width = parseInt10 widthStr; height = parseInt10 heightStr
              in
                if width \<le> 0 \<or> height \<le> 0 \<or> width > MAX_DIMENSION \<or> height > MAX_DIMENSION
                then Inr (response, [])
                else
                  (let sharpFormat = (if format = ''jpg'' then ''jpeg'' else format);
                       originKey = ''origin/'' @ subpath @ ''/'' @ filename
                   in
                     case s3_get world BUCKET originKey of
                       Inl error \<Rightarrow> Inr (response, [GetObjectCommand BUCKET originKey])
                     | Inr imageBuffer \<Rightarrow>
                         (case sharp_resize world imageBuffer width height sharpFormat of
                            Inl error \<Rightarrow> Inr (response, [GetObjectCommand BUCKET originKey])
                          | Inr resizedBuffer \<Rightarrow>
                              (let contentType = ''image/'' @ sharpFormat in
                               Inr (\<lparr>status = StatusNumber 200,
                                     statusDescription = ''OK'',
                                     headers =
                                       AList.update ''content-type''
                                         [\<lparr>key = Some ''Content-Type'', hvalue = contentType\<rparr>]
                                         (headers response),
                                     body = Some (base64 resizedBuffer),
                                     bodyEncoding = Some ''base64''\<rparr>,
                                    [GetObjectCommand BUCKET originKey,
                                     PutObjectCommand BUCKET key resizedBuffer contentType
                                       CACHE_CONTROL])))))))"

text \<open>The two components of a handler result.\<close>

definition response_of :: "js_error + response \<times> s3_command list \<Rightarrow> js_error + response" where
  "response_of r = map_sum id fst r"

definition commands_of :: "js_error + response \<times> s3_command list \<Rightarrow> s3_command list" where
  "commands_of r = (case r of Inl e \<Rightarrow> [] | Inr (resp, cmds) \<Rightarrow> cmds)"

section \<open>Sample events\<close>

text \<open>
  Concrete events, after the repository's debug scripts and the scenarios of the
  specification: an object store that holds one original, \<open>origin/blog/cover.jpg\<close>, and
  an image library that encodes to webp, jpeg and png only.
\<close>

definition sample_world :: env where
  "sample_world =
     \<lparr>s3_get = (\<lambda>bucket k. if k = ''origin/blog/cover.jpg'' then Inr [77, 97, 110]
                            else Inl (S3Error ''NoSuchKey'')),
      sharp_resize = (\<lambda>image w h fmt. if fmt = ''webp'' \<or> fmt = ''jpeg'' \<or> fmt = ''png''
                                        then Inr (rev image)
                                        else Inl (SharpError ''unsupported format'')),
      s3_put = (\<lambda>cmd. None)\<rparr>"

definition failing_put :: "s3_command \<Rightarrow> js_error option" where
  "failing_put cmd = Some (S3Error ''AccessDenied'')"

definition request_for :: "string \<Rightarrow> string \<Rightarrow> request" where
  "request_for u q = \<lparr>uri = u, querystring = q, headers = []\<rparr>"

definition request_accepting :: "string \<Rightarrow> string \<Rightarrow> string \<Rightarrow> request" where
  "request_accepting u q a =
     \<lparr>uri = u, querystring = q, headers = [(''accept'', [\<lparr>key = None, hvalue = a\<rparr>])]\<rparr>"

definition response_with_status :: "string \<Rightarrow> response" where
  "response_with_status st =
     \<lparr>status = StatusString st, statusDescription = ''Not Found'',
      headers = [(''content-type'', [\<lparr>key = Some ''Content-Type'', hvalue = ''application/xml''\<rparr>]),
                 (''server'', [\<lparr>key = Some ''Server'', hvalue = ''AmazonS3''\<rparr>])],
      body = None, bodyEncoding = None\<rparr>"

section \<open>Facts about the string operations\<close>

lemma split_on_no_sep: "sep \<notin> set s \<Longrightarrow> split_on sep s = [s]"
proof -
  assume "sep \<notin> set s"
  then have "dropWhile (\<lambda>c. c \<noteq> sep) s = []" by auto
  then show ?thesis by (subst split_on.simps) (simp only: list.case)
qed

lemma split_on_sep: "sep \<notin> set a \<Longrightarrow> split_on sep (a @ sep # b) = a # split_on sep b"
proof -
  assume a: "sep \<notin> set a"
  then have d: "dropWhile (\<lambda>c. c \<noteq> sep) (a @ sep # b) = sep # b"
    by (subst dropWhile_append2) auto
  from a have t: "takeWhile (\<lambda>c. c \<noteq> sep) (a @ sep # b) = a"
    by (subst takeWhile_append2) auto
  show ?thesis by (subst split_on.simps) (simp only: d t list.case)
qed

lemma split_on_two:
  "sep \<notin> set a \<Longrightarrow> sep \<notin> set b \<Longrightarrow> split_on sep (a @ sep # b) = [a, b]"
  by (simp add: split_on_sep split_on_no_sep)

lemma length_split_on: "length (split_on sep s) = Suc (count_list s sep)"
proof (induction sep s rule: split_on.induct)
  case (1 sep s)
  show ?case
  proof (cases "sep \<in> set s")
    case False
    then show ?thesis by (simp add: split_on_no_sep count_list_0_iff)
  next
    case True
    then obtain a b where s: "s = a @ sep # b" and a: "sep \<notin> set a"
      by (meson split_list_first)
    from a have d: "dropWhile (\<lambda>c. c \<noteq> sep) s = sep # b"
      unfolding s by (subst dropWhile_append2) auto
    from a have ca: "count_list a sep = 0" by (simp add: count_list_0_iff)
    from 1 [OF d] have "length (split_on sep b) = Suc (count_list b sep)" .
    with a ca show ?thesis unfolding s by (simp add: split_on_sep)
  qed
qed

lemma take_length_eq_iff: "take (length t) s = t \<longleftrightarrow> (\<exists>q. s = t @ q)"
proof
  assume "take (length t) s = t"
  then have "s = t @ drop (length t) s" by (metis append_take_drop_id)
  then show "\<exists>q. s = t @ q" ..
next
  assume "\<exists>q. s = t @ q"
  then show "take (length t) s = t" by auto
qed

lemma str_includes_iff: "str_includes s t \<longleftrightarrow> (\<exists>p q. s = p @ t @ q)"
proof (induction s)
  case Nil
  then show ?case by simp
next
  case (Cons c cs)
  have "(\<exists>p q. c # cs = p @ t @ q) \<longleftrightarrow> (\<exists>q. c # cs = t @ q) \<or> (\<exists>p q. cs = p @ t @ q)"
  proof
    assume "\<exists>p q. c # cs = p @ t @ q"
    then obtain p q where e: "c # cs = p @ t @ q" by blast
    show "(\<exists>q. c # cs = t @ q) \<or> (\<exists>p q. cs = p @ t @ q)"
    proof (cases p)
      case Nil
      with e show ?thesis by auto
    next
      case (Cons x p')
      with e have "cs = p' @ t @ q" by simp
      then show ?thesis by blast
    qed
  next
    assume "(\<exists>q. c # cs = t @ q) \<or> (\<exists>p q. cs = p @ t @ q)"
    then show "\<exists>p q. c # cs = p @ t @ q"
    proof
      assume "\<exists>q. c # cs = t @ q"
      then obtain q where "c # cs = [] @ t @ q" by auto
      then show ?thesis by blast
    next
      assume "\<exists>p q. cs = p @ t @ q"
      then obtain p q where "c # cs = (c # p) @ t @ q" by auto
      then show ?thesis by blast
    qed
  qed
  with Cons show ?case by (simp only: str_includes.simps take_length_eq_iff)
qed

lemma params_has_get:
  "params_has params name \<Longrightarrow> \<exists>v. params_get params name = Some v"
  by (induction params) (auto simp add: params_has_def params_get_def)

lemma params_get_has:
  "params_get params name = Some v \<Longrightarrow> params_has params name"
  by (induction params) (auto simp add: params_has_def params_get_def split: if_splits)

lemma digit_not_x: "\<forall>c \<in> set a. digit c \<Longrightarrow> CHR ''x'' \<notin> set a"
  by (auto simp add: digit_def)

lemma digit_not_slash: "\<forall>c \<in> set a. digit c \<Longrightarrow> CHR ''/'' \<notin> set a"
  by (auto simp add: digit_def)

section \<open>Facts about the matcher\<close>

text \<open>
  What a match of one atom says about the string (the elimination rules), and when a
  greedy repetition settles on a given prefix: the rest of the pattern matches after it
  and after no longer prefix of the class.
\<close>

lemma first_some_SomeD:
  "first_some f xs = Some v \<Longrightarrow> \<exists>x \<in> set xs. f x = Some v"
  by (induction xs) (auto split: option.splits)

lemma first_some_down:
  "1 \<le> k \<Longrightarrow> k \<le> m \<Longrightarrow> \<forall>n. k < n \<and> n \<le> m \<longrightarrow> f n = None \<Longrightarrow> f k = Some v
    \<Longrightarrow> first_some f (rev [1..<Suc m]) = Some v"
proof (induction m)
  case 0
  then show ?case by simp
next
  case (Suc m)
  show ?case
  proof (cases "k = Suc m")
    case True
    with Suc.prems show ?thesis by simp
  next
    case False
    with Suc.prems have "k \<le> m" by simp
    moreover from Suc.prems False have "f (Suc m) = None" by simp
    ultimately show ?thesis using Suc by simp
  qed
qed

lemma take_within_takeWhile:
  "n \<le> length (takeWhile P s) \<Longrightarrow> \<forall>c \<in> set (take n s). P c"
proof -
  assume n: "n \<le> length (takeWhile P s)"
  have "take n s = take n (takeWhile P s @ dropWhile P s)" by simp
  also have "\<dots> = take n (takeWhile P s)" using n by (simp del: takeWhile_dropWhile_id)
  finally have "set (take n s) \<subseteq> set (takeWhile P s)" by (simp add: set_take_subset)
  then show ?thesis by (meson set_takeWhileD subsetD)
qed

lemma rmatch_LitE:
  assumes "rmatch (Lit c # rs) s = Some cs"
  obtains t where "s = c # t" and "rmatch rs t = Some cs"
  using assms by (cases s) (auto split: if_splits)

lemma rmatch_EosE:
  assumes "rmatch (Eos # rs) s = Some cs"
  obtains "s = []" and "rmatch rs [] = Some cs"
  using assms by (auto split: if_splits)

lemma rmatch_PlusE:
  assumes "rmatch (Plus P # rs) s = Some cs"
  obtains a b caps where "s = a @ b" and "a \<noteq> []" and "\<forall>c \<in> set a. P c"
    and "cs = a # caps" and "rmatch rs b = Some caps"
proof -
  from assms have "first_some (\<lambda>n. map_option ((#) (take n s)) (rmatch rs (drop n s)))
      (rev [1..<Suc (length (takeWhile P s))]) = Some cs"
    by (simp only: rmatch.simps)
  then obtain n where n: "n \<in> set (rev [1..<Suc (length (takeWhile P s))])"
    and m: "map_option ((#) (take n s)) (rmatch rs (drop n s)) = Some cs"
    by (blast dest: first_some_SomeD)
  from m obtain caps where caps: "rmatch rs (drop n s) = Some caps" and cs: "cs = take n s # caps"
    by auto
  from n have n1: "1 \<le> n" and n2: "n \<le> length (takeWhile P s)" by auto
  have "length (takeWhile P s) \<le> length s" by (rule length_takeWhile_le)
  with n1 n2 have ne: "take n s \<noteq> []" by auto
  from n2 have "\<forall>c \<in> set (take n s). P c" by (rule take_within_takeWhile)
  with ne caps cs that [of "take n s" "drop n s" caps] show thesis by simp
qed

lemma rmatch_Plus_greedy:
  assumes s: "s = a @ b" and ne: "a \<noteq> []" and pa: "\<forall>c \<in> set a. P c"
    and rest: "rmatch rs b = Some caps"
    and longer: "\<And>a' b'. s = a' @ b' \<Longrightarrow> length a < length a' \<Longrightarrow> \<forall>c \<in> set a'. P c
                  \<Longrightarrow> rmatch rs b' = None"
  shows "rmatch (Plus P # rs) s = Some (a # caps)"
proof -
  let ?m = "length (takeWhile P s)"
  let ?k = "length a"
  let ?f = "\<lambda>n. map_option ((#) (take n s)) (rmatch rs (drop n s))"
  from pa s have km: "?k \<le> ?m" by (simp add: takeWhile_append2)
  from ne have k1: "1 \<le> ?k" by (cases a) auto
  have none: "\<forall>n. ?k < n \<and> n \<le> ?m \<longrightarrow> ?f n = None"
  proof (intro allI impI)
    fix n assume "?k < n \<and> n \<le> ?m"
    then have n1: "?k < n" and n2: "n \<le> ?m" by auto
    have "length (takeWhile P s) \<le> length s" by (rule length_takeWhile_le)
    with n2 have "length (take n s) = n" by simp
    with n1 have l: "length a < length (take n s)" by simp
    have e: "s = take n s @ drop n s" by simp
    from n2 have "\<forall>c \<in> set (take n s). P c" by (rule take_within_takeWhile)
    with e l have "rmatch rs (drop n s) = None" by (rule longer)
    then show "?f n = None" by simp
  qed
  have hit: "?f ?k = Some (a # caps)" using s rest by simp
  have "first_some ?f (rev [1..<Suc ?m]) = Some (a # caps)"
    using k1 km none hit by (rule first_some_down)
  then show ?thesis by (simp only: rmatch.simps)
qed

lemma longer_prefix:
  assumes "a @ b = a' @ b'" and "length a < length a'"
  obtains c where "c \<noteq> []" and "a' = a @ c" and "b = c @ b'"
proof -
  from assms(1) obtain us where "(a = a' @ us \<and> us @ b = b') \<or> (a @ us = a' \<and> b = us @ b')"
    by (auto simp add: append_eq_append_conv2)
  with assms(2) have "a @ us = a' \<and> b = us @ b' \<and> us \<noteq> []" by auto
  with that show thesis by blast
qed

lemma first_split_unique:
  "x \<notin> set p \<Longrightarrow> x \<notin> set p' \<Longrightarrow> p @ x # q = p' @ x # q' \<Longrightarrow> p = p' \<and> q = q'"
proof (induction p arbitrary: p')
  case Nil
  then show ?case by (cases p') auto
next
  case (Cons a p)
  then show ?case by (cases p') auto
qed

lemma last_split_unique:
  assumes "x \<notin> set q" and "x \<notin> set q'" and "p @ x # q = p' @ x # q'"
  shows "p = p' \<and> q = q'"
proof -
  from assms(3) have "rev (p @ x # q) = rev (p' @ x # q')" by simp
  then have "rev q @ x # rev p = rev q' @ x # rev p'" by simp
  moreover from assms have "x \<notin> set (rev q)" "x \<notin> set (rev q')" by simp_all
  ultimately have "rev q = rev q' \<and> rev p = rev p'"
    by (blast dest: first_split_unique)
  then show ?thesis by simp
qed

lemma rmatch_Plus_all:
  assumes "a \<noteq> []" and "\<forall>c \<in> set a. P c"
  shows "rmatch [Plus P, Eos] a = Some [a]"
proof (rule rmatch_Plus_greedy [where b = "[]"])
  show "a = a @ []" by simp
  show "a \<noteq> []" by fact
  show "\<forall>c \<in> set a. P c" by fact
  show "rmatch [Eos] [] = Some []" by simp
next
  fix a' b' assume "a = a' @ b'" and "length a < length a'"
  then have False by (metis length_append not_add_less1)
  then show "rmatch [Eos] b' = None" ..
qed

lemma rmatch_Plus_stop:
  assumes "a \<noteq> []" and "\<forall>c \<in> set a. P c" and "\<not> P x" and "rmatch rs b = Some caps"
  shows "rmatch (Plus P # Lit x # rs) (a @ x # b) = Some (a # caps)"
proof (rule rmatch_Plus_greedy [where b = "x # b"])
  show "a @ x # b = a @ x # b" ..
  show "a \<noteq> []" by fact
  show "\<forall>c \<in> set a. P c" by fact
  show "rmatch (Lit x # rs) (x # b) = Some caps" using assms(4) by simp
next
  fix a' b' assume e: "a @ x # b = a' @ b'" and l: "length a < length a'"
    and p: "\<forall>c \<in> set a'. P c"
  from e l obtain c where "c \<noteq> []" and "a' = a @ c" and "x # b = c @ b'"
    by (rule longer_prefix)
  then have "x \<in> set a'" by (cases c) auto
  with p assms(3) have False by blast
  then show "rmatch (Lit x # rs) b' = None" ..
qed

lemma match_search_first:
  "rmatch rs s = Some v \<Longrightarrow> match_search rs s = Some v"
  by (simp add: match_search_def upt_conv_Cons del: upt_Suc)

text \<open>
  The URI pattern on a URI of the form \<open>/subpath/filename.extension\<close>: when the subpath is
  non-empty and free of line terminators, the file name is non-empty and free of slashes,
  and the extension is non-empty and free of dots, the leftmost match starts at the leading
  slash and the three captures are these three parts.
\<close>

lemma uri_tail_shape:
  assumes "rmatch [Lit CHR ''/'', Plus not_slash, Lit CHR ''.'', Plus not_dot, Eos] s = Some cs"
  obtains n e where "s = CHR ''/'' # n @ CHR ''.'' # e" and "CHR ''.'' \<notin> set e"
proof -
  from assms obtain t where s: "s = CHR ''/'' # t"
    and 1: "rmatch [Plus not_slash, Lit CHR ''.'', Plus not_dot, Eos] t = Some cs"
    by (rule rmatch_LitE)
  from 1 obtain n b caps where t: "t = n @ b"
    and 2: "rmatch [Lit CHR ''.'', Plus not_dot, Eos] b = Some caps"
    by (rule rmatch_PlusE)
  from 2 obtain u where b: "b = CHR ''.'' # u" and 3: "rmatch [Plus not_dot, Eos] u = Some caps"
    by (rule rmatch_LitE)
  from 3 obtain e r caps' where u: "u = e @ r" and e: "\<forall>c \<in> set e. not_dot c"
    and 4: "rmatch [Eos] r = Some caps'"
    by (rule rmatch_PlusE)
  from 4 have "r = []" by (rule rmatch_EosE)
  with s t b u have "s = CHR ''/'' # n @ CHR ''.'' # e" by simp
  moreover from e have "CHR ''.'' \<notin> set e" by (auto simp add: not_dot_def)
  ultimately show thesis by (rule that)
qed

lemma uri_pattern_match:
  assumes sp: "subpath \<noteq> []" "\<forall>c \<in> set subpath. dot c"
    and fn: "filename \<noteq> []" "CHR ''/'' \<notin> set filename"
    and ex: "extension \<noteq> []" "CHR ''.'' \<notin> set extension"
  shows "match_search URI_PATTERN (''/'' @ subpath @ ''/'' @ filename @ ''.'' @ extension)
           = Some [subpath, filename, extension]"
proof -
  from ex have e1: "rmatch [Plus not_dot, Eos] extension = Some [extension]"
    by (intro rmatch_Plus_all) (auto simp add: not_dot_def)
  have f1: "rmatch [Plus not_slash, Lit CHR ''.'', Plus not_dot, Eos]
              (filename @ CHR ''.'' # extension) = Some [filename, extension]"
  proof (rule rmatch_Plus_greedy [where b = "CHR ''.'' # extension"])
    show "filename @ CHR ''.'' # extension = filename @ CHR ''.'' # extension" ..
    show "filename \<noteq> []" by fact
    show "\<forall>c \<in> set filename. not_slash c" using fn by (auto simp add: not_slash_def)
    show "rmatch [Lit CHR ''.'', Plus not_dot, Eos] (CHR ''.'' # extension) = Some [extension]"
      using e1 by simp
  next
    fix a' b' assume e: "filename @ CHR ''.'' # extension = a' @ b'"
      and l: "length filename < length a'"
    from e l obtain c where c: "c \<noteq> []" "CHR ''.'' # extension = c @ b'"
      by (rule longer_prefix)
    show "rmatch [Lit CHR ''.'', Plus not_dot, Eos] b' = None"
    proof (rule ccontr)
      assume "rmatch [Lit CHR ''.'', Plus not_dot, Eos] b' \<noteq> None"
      then obtain cs where "rmatch [Lit CHR ''.'', Plus not_dot, Eos] b' = Some cs" by auto
      then obtain t where "b' = CHR ''.'' # t" by (rule rmatch_LitE)
      with c have "CHR ''.'' \<in> set extension" by (cases c) auto
      with ex show False by simp
    qed
  qed
  have p1: "rmatch [Plus dot, Lit CHR ''/'', Plus not_slash, Lit CHR ''.'', Plus not_dot, Eos]
              (subpath @ CHR ''/'' # filename @ CHR ''.'' # extension)
            = Some [subpath, filename, extension]"
  proof (rule rmatch_Plus_greedy [where b = "CHR ''/'' # filename @ CHR ''.'' # extension"])
    show "subpath @ CHR ''/'' # filename @ CHR ''.'' # extension
          = subpath @ CHR ''/'' # filename @ CHR ''.'' # extension" ..
    show "subpath \<noteq> []" by fact
    show "\<forall>c \<in> set subpath. dot c" by fact
    show "rmatch [Lit CHR ''/'', Plus not_slash, Lit CHR ''.'', Plus not_dot, Eos]
            (CHR ''/'' # filename @ CHR ''.'' # extension) = Some [filename, extension]"
      using f1 by simp
  next
    fix a' b' assume e: "subpath @ CHR ''/'' # filename @ CHR ''.'' # extension = a' @ b'"
      and l: "length subpath < length a'"
    from e l obtain c where c: "c \<noteq> []" "CHR ''/'' # filename @ CHR ''.'' # extension = c @ b'"
      by (rule longer_prefix)
    show "rmatch [Lit CHR ''/'', Plus not_slash, Lit CHR ''.'', Plus not_dot, Eos] b' = None"
    proof (rule ccontr)
      assume "rmatch [Lit CHR ''/'', Plus not_slash, Lit CHR ''.'', Plus not_dot, Eos] b' \<noteq> None"
      then obtain cs where
        "rmatch [Lit CHR ''/'', Plus not_slash, Lit CHR ''.'', Plus not_dot, Eos] b' = Some cs"
        by auto
      then obtain n e where b': "b' = CHR ''/'' # n @ CHR ''.'' # e" and e: "CHR ''.'' \<notin> set e"
        by (rule uri_tail_shape)
      from c obtain c' where "filename @ CHR ''.'' # extension = c' @ b'" by (cases c) auto
      with b' have "filename @ CHR ''.'' # extension = (c' @ CHR ''/'' # n) @ CHR ''.'' # e"
        by simp
      with ex(2) e have "filename = c' @ CHR ''/'' # n" by (blast dest: last_split_unique)
      with fn show False by simp
    qed
  qed
  have "rmatch URI_PATTERN (''/'' @ subpath @ ''/'' @ filename @ ''.'' @ extension)
          = Some [subpath, filename, extension]"
    using p1 by (simp add: URI_PATTERN_def)
  then show ?thesis by (rule match_search_first)
qed

text \<open>
  Conversely, whatever the URI pattern matches has that shape, after the part of the URI
  that precedes the match.
\<close>

lemma uri_pattern_sound:
  assumes "match_search URI_PATTERN u = Some uriMatch"
  obtains before path filename extension where
    "uriMatch = [path, filename, extension]"
    and "u = before @ ''/'' @ path @ ''/'' @ filename @ ''.'' @ extension"
    and "path \<noteq> []" and "\<forall>c \<in> set path. dot c"
    and "filename \<noteq> []" and "CHR ''/'' \<notin> set filename"
    and "extension \<noteq> []" and "CHR ''.'' \<notin> set extension"
proof -
  from assms obtain i where 0: "rmatch URI_PATTERN (drop i u) = Some uriMatch"
    unfolding match_search_def by (blast dest: first_some_SomeD)
  then obtain t where s: "drop i u = CHR ''/'' # t"
    and 1: "rmatch [Plus dot, Lit CHR ''/'', Plus not_slash, Lit CHR ''.'', Plus not_dot, Eos] t
              = Some uriMatch"
    unfolding URI_PATTERN_def by (rule rmatch_LitE)
  from 1 obtain p b1 c1 where t: "t = p @ b1" and p: "p \<noteq> []" "\<forall>c \<in> set p. dot c"
    and k1: "uriMatch = p # c1"
    and 2: "rmatch [Lit CHR ''/'', Plus not_slash, Lit CHR ''.'', Plus not_dot, Eos] b1 = Some c1"
    by (rule rmatch_PlusE)
  from 2 obtain t2 where b1: "b1 = CHR ''/'' # t2"
    and 3: "rmatch [Plus not_slash, Lit CHR ''.'', Plus not_dot, Eos] t2 = Some c1"
    by (rule rmatch_LitE)
  from 3 obtain f b2 c2 where t2: "t2 = f @ b2" and f: "f \<noteq> []" "\<forall>c \<in> set f. not_slash c"
    and k2: "c1 = f # c2"
    and 4: "rmatch [Lit CHR ''.'', Plus not_dot, Eos] b2 = Some c2"
    by (rule rmatch_PlusE)
  from 4 obtain t3 where b2: "b2 = CHR ''.'' # t3"
    and 5: "rmatch [Plus not_dot, Eos] t3 = Some c2"
    by (rule rmatch_LitE)
  from 5 obtain e b3 c3 where t3: "t3 = e @ b3" and e: "e \<noteq> []" "\<forall>c \<in> set e. not_dot c"
    and k3: "c2 = e # c3"
    and 6: "rmatch [Eos] b3 = Some c3"
    by (rule rmatch_PlusE)
  from 6 have b3: "b3 = []" and c3: "c3 = []" by (auto split: if_splits)
  have u: "u = take i u @ drop i u" by simp
  show thesis
  proof (rule that [of p f e "take i u"])
    show "uriMatch = [p, f, e]" by (simp add: k1 k2 k3 c3)
    show "u = take i u @ ''/'' @ p @ ''/'' @ f @ ''.'' @ e"
      by (subst u) (simp add: s t b1 t2 b2 t3 b3)
    show "CHR ''/'' \<notin> set f" using f by (auto simp add: not_slash_def)
    show "CHR ''.'' \<notin> set e" using e by (auto simp add: not_dot_def)
  qed (use p f e in simp_all)
qed

text \<open>
  The key pattern on a key \<open>resize/subpath/WxH/format/filename\<close> whose format and file
  name hold no slash: the greedy first group settles on the subpath, since what follows a
  longer prefix has fewer than the three slashes the rest of the pattern needs.
\<close>

lemma key_tail_slashes:
  assumes "rmatch [Lit CHR ''/'', Plus digit, Lit CHR ''x'', Plus digit, Lit CHR ''/'',
                   Plus not_slash, Lit CHR ''/'', Plus dot, Eos] s = Some cs"
  shows "3 \<le> count_list s CHR ''/''"
proof -
  from assms obtain t1 where s: "s = CHR ''/'' # t1"
    and 1: "rmatch [Plus digit, Lit CHR ''x'', Plus digit, Lit CHR ''/'',
                    Plus not_slash, Lit CHR ''/'', Plus dot, Eos] t1 = Some cs"
    by (rule rmatch_LitE)
  from 1 obtain w b1 c1 where t1: "t1 = w @ b1"
    and 2: "rmatch [Lit CHR ''x'', Plus digit, Lit CHR ''/'',
                    Plus not_slash, Lit CHR ''/'', Plus dot, Eos] b1 = Some c1"
    by (rule rmatch_PlusE)
  from 2 obtain t2 where b1: "b1 = CHR ''x'' # t2"
    and 3: "rmatch [Plus digit, Lit CHR ''/'', Plus not_slash, Lit CHR ''/'', Plus dot, Eos] t2
              = Some c1"
    by (rule rmatch_LitE)
  from 3 obtain h b2 c2 where t2: "t2 = h @ b2"
    and 4: "rmatch [Lit CHR ''/'', Plus not_slash, Lit CHR ''/'', Plus dot, Eos] b2 = Some c2"
    by (rule rmatch_PlusE)
  from 4 obtain t3 where b2: "b2 = CHR ''/'' # t3"
    and 5: "rmatch [Plus not_slash, Lit CHR ''/'', Plus dot, Eos] t3 = Some c2"
    by (rule rmatch_LitE)
  from 5 obtain f b3 c3 where t3: "t3 = f @ b3"
    and 6: "rmatch [Lit CHR ''/'', Plus dot, Eos] b3 = Some c3"
    by (rule rmatch_PlusE)
  from 6 obtain t4 where b3: "b3 = CHR ''/'' # t4"
    by (rule rmatch_LitE)
  show ?thesis
    unfolding s t1 b1 t2 b2 t3 b3 by simp
qed

lemma key_pattern_match:
  assumes sp: "subpath \<noteq> []" "\<forall>c \<in> set subpath. dot c"
    and w: "width \<noteq> []" "\<forall>c \<in> set width. digit c"
    and h: "height \<noteq> []" "\<forall>c \<in> set height. digit c"
    and f: "format \<noteq> []" "CHR ''/'' \<notin> set format"
    and fn: "filename \<noteq> []" "\<forall>c \<in> set filename. dot c" "CHR ''/'' \<notin> set filename"
  shows "match_anchored KEY_PATTERN
           (''resize/'' @ subpath @ ''/'' @ width @ ''x'' @ height @ ''/'' @ format @ ''/'' @ filename)
         = Some [subpath, width, height, format, filename]"
proof -
  let ?t4 = "filename"
  let ?t3 = "format @ CHR ''/'' # ?t4"
  let ?t2 = "height @ CHR ''/'' # ?t3"
  let ?t1 = "width @ CHR ''x'' # ?t2"
  from fn have k1: "rmatch [Plus dot, Eos] ?t4 = Some [filename]"
    by (intro rmatch_Plus_all) auto
  from f have fs: "\<forall>c \<in> set format. not_slash c" by (auto simp add: not_slash_def)
  have k2: "rmatch [Plus not_slash, Lit CHR ''/'', Plus dot, Eos] ?t3 = Some [format, filename]"
    by (rule rmatch_Plus_stop [OF f(1) fs _ k1]) (simp add: not_slash_def)
  have k3: "rmatch [Plus digit, Lit CHR ''/'', Plus not_slash, Lit CHR ''/'', Plus dot, Eos] ?t2
              = Some [height, format, filename]"
    by (rule rmatch_Plus_stop [OF h(1) h(2) _ k2]) (simp add: digit_def)
  have k4: "rmatch [Plus digit, Lit CHR ''x'', Plus digit, Lit CHR ''/'', Plus not_slash,
                    Lit CHR ''/'', Plus dot, Eos] ?t1
              = Some [width, height, format, filename]"
    by (rule rmatch_Plus_stop [OF w(1) w(2) _ k3]) (simp add: digit_def)
  have slashes: "count_list ?t1 CHR ''/'' = 2"
    using digit_not_slash [OF w(2)] digit_not_slash [OF h(2)] f(2) fn(3)
    by (simp add: count_list_0_iff)
  have k5: "rmatch [Plus dot, Lit CHR ''/'', Plus digit, Lit CHR ''x'', Plus digit, Lit CHR ''/'',
                    Plus not_slash, Lit CHR ''/'', Plus dot, Eos] (subpath @ CHR ''/'' # ?t1)
              = Some [subpath, width, height, format, filename]"
  proof (rule rmatch_Plus_greedy [where b = "CHR ''/'' # ?t1"])
    show "subpath @ CHR ''/'' # ?t1 = subpath @ CHR ''/'' # ?t1" ..
    show "subpath \<noteq> []" by fact
    show "\<forall>c \<in> set subpath. dot c" by fact
    show "rmatch [Lit CHR ''/'', Plus digit, Lit CHR ''x'', Plus digit, Lit CHR ''/'',
                  Plus not_slash, Lit CHR ''/'', Plus dot, Eos] (CHR ''/'' # ?t1)
            = Some [width, height, format, filename]"
      using k4 by simp
  next
    fix a' b' assume e: "subpath @ CHR ''/'' # ?t1 = a' @ b'" and l: "length subpath < length a'"
    from e l obtain c where c: "c \<noteq> []" "CHR ''/'' # ?t1 = c @ b'"
      by (rule longer_prefix)
    then obtain c' where c': "?t1 = c' @ b'" by (cases c) auto
    have "count_list (c' @ b') CHR ''/'' = 2" using slashes unfolding c' .
    then have le: "count_list b' CHR ''/'' \<le> 2" by simp
    show "rmatch [Lit CHR ''/'', Plus digit, Lit CHR ''x'', Plus digit, Lit CHR ''/'',
                  Plus not_slash, Lit CHR ''/'', Plus dot, Eos] b' = None"
    proof (rule ccontr)
      assume "rmatch [Lit CHR ''/'', Plus digit, Lit CHR ''x'', Plus digit, Lit CHR ''/'',
                  Plus not_slash, Lit CHR ''/'', Plus dot, Eos] b' \<noteq> None"
      then obtain cs where "rmatch [Lit CHR ''/'', Plus digit, Lit CHR ''x'', Plus digit,
          Lit CHR ''/'', Plus not_slash, Lit CHR ''/'', Plus dot, Eos] b' = Some cs"
        by auto
      then have "3 \<le> count_list b' CHR ''/''" by (rule key_tail_slashes)
      with le show False by simp
    qed
  qed
  show ?thesis
    using k5 by (simp add: match_anchored_def KEY_PATTERN_def)
qed

text \<open>
  Conversely, every key the key pattern matches has the shape of a derived key, and its
  width and height captures are strings of digits: they parse to numbers that are not
  negative.
\<close>

lemma key_pattern_sound:
  assumes "match_anchored KEY_PATTERN s = Some keyMatch"
  obtains subpath width height format filename where
    "keyMatch = [subpath, width, height, format, filename]"
    and "s = ''resize/'' @ subpath @ ''/'' @ width @ ''x'' @ height @ ''/'' @ format @ ''/'' @ filename"
    and "subpath \<noteq> []" and "\<forall>c \<in> set subpath. dot c"
    and "width \<noteq> []" and "\<forall>c \<in> set width. digit c"
    and "height \<noteq> []" and "\<forall>c \<in> set height. digit c"
    and "format \<noteq> []" and "CHR ''/'' \<notin> set format"
    and "filename \<noteq> []" and "\<forall>c \<in> set filename. dot c"
proof -
  from assms have "rmatch (map Lit ''resize/'' @
     [Plus dot, Lit CHR ''/'', Plus digit, Lit CHR ''x'', Plus digit, Lit CHR ''/'',
      Plus not_slash, Lit CHR ''/'', Plus dot, Eos]) s = Some keyMatch"
    by (simp only: match_anchored_def KEY_PATTERN_def)
  then have "rmatch [Lit CHR ''r'', Lit CHR ''e'', Lit CHR ''s'', Lit CHR ''i'', Lit CHR ''z'',
      Lit CHR ''e'', Lit CHR ''/'',
      Plus dot, Lit CHR ''/'', Plus digit, Lit CHR ''x'', Plus digit, Lit CHR ''/'',
      Plus not_slash, Lit CHR ''/'', Plus dot, Eos] s = Some keyMatch"
    by simp
  then obtain t where s: "s = ''resize/'' @ t"
    and 1: "rmatch [Plus dot, Lit CHR ''/'', Plus digit, Lit CHR ''x'', Plus digit, Lit CHR ''/'',
      Plus not_slash, Lit CHR ''/'', Plus dot, Eos] t = Some keyMatch"
    by (elim rmatch_LitE) simp
  from 1 obtain sp b1 c1 where t: "t = sp @ b1" and sp: "sp \<noteq> []" "\<forall>c \<in> set sp. dot c"
    and k1: "keyMatch = sp # c1"
    and 2: "rmatch [Lit CHR ''/'', Plus digit, Lit CHR ''x'', Plus digit, Lit CHR ''/'',
      Plus not_slash, Lit CHR ''/'', Plus dot, Eos] b1 = Some c1"
    by (rule rmatch_PlusE)
  from 2 obtain t2 where b1: "b1 = CHR ''/'' # t2"
    and 3: "rmatch [Plus digit, Lit CHR ''x'', Plus digit, Lit CHR ''/'',
      Plus not_slash, Lit CHR ''/'', Plus dot, Eos] t2 = Some c1"
    by (rule rmatch_LitE)
  from 3 obtain w b2 c2 where t2: "t2 = w @ b2" and w: "w \<noteq> []" "\<forall>c \<in> set w. digit c"
    and k2: "c1 = w # c2"
    and 4: "rmatch [Lit CHR ''x'', Plus digit, Lit CHR ''/'',
      Plus not_slash, Lit CHR ''/'', Plus dot, Eos] b2 = Some c2"
    by (rule rmatch_PlusE)
  from 4 obtain t3 where b2: "b2 = CHR ''x'' # t3"
    and 5: "rmatch [Plus digit, Lit CHR ''/'', Plus not_slash, Lit CHR ''/'', Plus dot, Eos] t3
              = Some c2"
    by (rule rmatch_LitE)
  from 5 obtain h b3 c3 where t3: "t3 = h @ b3" and h: "h \<noteq> []" "\<forall>c \<in> set h. digit c"
    and k3: "c2 = h # c3"
    and 6: "rmatch [Lit CHR ''/'', Plus not_slash, Lit CHR ''/'', Plus dot, Eos] b3 = Some c3"
    by (rule rmatch_PlusE)
  from 6 obtain t4 where b3: "b3 = CHR ''/'' # t4"
    and 7: "rmatch [Plus not_slash, Lit CHR ''/'', Plus dot, Eos] t4 = Some c3"
    by (rule rmatch_LitE)
  from 7 obtain f b4 c4 where t4: "t4 = f @ b4" and f: "f \<noteq> []" "\<forall>c \<in> set f. not_slash c"
    and k4: "c3 = f # c4"
    and 8: "rmatch [Lit CHR ''/'', Plus dot, Eos] b4 = Some c4"
    by (rule rmatch_PlusE)
  from 8 obtain t5 where b4: "b4 = CHR ''/'' # t5"
    and 9: "rmatch [Plus dot, Eos] t5 = Some c4"
    by (rule rmatch_LitE)
  from 9 obtain fn b5 c5 where t5: "t5 = fn @ b5" and fn: "fn \<noteq> []" "\<forall>c \<in> set fn. dot c"
    and k5: "c4 = fn # c5"
    and 10: "rmatch [Eos] b5 = Some c5"
    by (rule rmatch_PlusE)
  from 10 have b5: "b5 = []" and c5: "c5 = []" by (auto split: if_splits)
  show thesis
  proof (rule that [of sp w h f fn])
    show "keyMatch = [sp, w, h, f, fn]" by (simp add: k1 k2 k3 k4 k5 c5)
    show "s = ''resize/'' @ sp @ ''/'' @ w @ ''x'' @ h @ ''/'' @ f @ ''/'' @ fn"
      by (simp add: s t b1 t2 b2 t3 b3 t4 b4 t5 b5)
    show "CHR ''/'' \<notin> set f" using f by (auto simp add: not_slash_def)
  qed (use sp w h f fn in simp_all)
qed

lemma parseInt10_snoc: "parseInt10 (s @ [c]) = 10 * parseInt10 s + (int (of_char c) - 48)"
  by (simp add: parseInt10_def)

lemma parseInt10_nonneg: "\<forall>c \<in> set s. digit c \<Longrightarrow> 0 \<le> parseInt10 s"
proof (induction s rule: rev_induct)
  case Nil
  then show ?case by (simp add: parseInt10_def)
next
  case (snoc c s)
  then have "0 \<le> parseInt10 s" and "48 \<le> (of_char c :: nat)" by (simp_all add: digit_def)
  then show ?case by (simp add: parseInt10_snoc)
qed

section \<open>Properties of the viewer-request handler\<close>

text \<open>
  The handler after its three checks: a \<open>d\<close> value that splits into two parts and a URI
  on which the pattern captures a path, a file name and an extension.
\<close>

lemma viewer_handler_on_match:
  assumes d: "params_get (URLSearchParams (querystring request)) ''d'' = Some d"
    and dims: "split_on CHR ''x'' d = [dim0, dim1]"
    and m: "match_search URI_PATTERN (uri request) = Some [path, filename, extension]"
  shows "viewer_handler request =
           Inr (request\<lparr>uri := ''/resize/'' @ path @ ''/'' @ dim0 @ ''x'' @ dim1 @ ''/''
                  @ (case header_value (request.headers request) ''accept'' of
                       None \<Rightarrow> extension
                     | Some v \<Rightarrow> if str_includes v ''webp'' then ''webp'' else extension)
                  @ ''/'' @ filename @ ''.'' @ extension\<rparr>)"
proof -
  from d have "params_has (URLSearchParams (querystring request)) ''d''"
    by (rule params_get_has)
  with m d dims show ?thesis
    by (simp add: viewer_handler_def Let_def)
qed

text \<open>
  C1. Take a request whose query string has a \<open>d\<close> parameter, whose (first) \<open>d\<close> value
  is ASCII (as a value \<open>300x300\<close> is; see the scope of the parser above) and splits on
  \<open>x\<close> into exactly the two parts \<open>dim0\<close> and \<open>dim1\<close>, and whose URI is
  \<open>/subpath/filename.extension\<close> as the URI pattern reads it: a non-empty subpath of
  characters its \<open>.\<close> accepts (no line terminator), a non-empty file name without a slash
  and a non-empty extension without a dot. The handler returns the request with the URI
  \<open>/resize/subpath/dim0xdim1/format/filename.extension\<close> and every other field as it
  was, where the format is \<open>webp\<close> when the value of the accept header (the first entry)
  includes \<open>webp\<close>, and the extension otherwise, also when there is no accept header.
\<close>

theorem rewritten_uri:
  assumes "params_get (URLSearchParams (querystring request)) ''d'' = Some d"
    and "split_on CHR ''x'' d = [dim0, dim1]"
    and "\<forall>c \<in> set d. is_ascii c"
    and "uri request = ''/'' @ subpath @ ''/'' @ filename @ ''.'' @ extension"
    and "subpath \<noteq> []" and "\<forall>c \<in> set subpath. \<not> line_terminator c"
    and "filename \<noteq> []" and "CHR ''/'' \<notin> set filename"
    and "extension \<noteq> []" and "CHR ''.'' \<notin> set extension"
    and "format = (case header_value (request.headers request) ''accept'' of
                     None \<Rightarrow> extension
                   | Some v \<Rightarrow> if str_includes v ''webp'' then ''webp'' else extension)"
  shows "viewer_handler request =
           Inr (request\<lparr>uri := ''/resize/'' @ subpath @ ''/'' @ dim0 @ ''x'' @ dim1 @ ''/''
                                 @ format @ ''/'' @ filename @ ''.'' @ extension\<rparr>)"
proof -
  from assms(6) have "\<forall>c \<in> set subpath. dot c"
    by (simp add: dot_def)
  with assms(5,7-10)
  have "match_search URI_PATTERN (''/'' @ subpath @ ''/'' @ filename @ ''.'' @ extension)
          = Some [subpath, filename, extension]"
    by (intro uri_pattern_match)
  then have "match_search URI_PATTERN (uri request) = Some [subpath, filename, extension]"
    by (simp only: assms(4))
  from viewer_handler_on_match [OF assms(1,2) this] show ?thesis
    by (simp only: assms(11))
qed

theorem rewritten_uri_witness:
  "viewer_handler (request_accepting ''/blog/posts/cover.jpg'' ''d=300x300'' ''text/html,image/webp,*/*'')
     = Inr (request_accepting ''/resize/blog/posts/300x300/webp/cover.jpg'' ''d=300x300''
              ''text/html,image/webp,*/*'')
   \<and> viewer_handler (request_accepting ''/image/test.png'' ''d=200x200'' ''text/html,*/*'')
     = Inr (request_accepting ''/resize/image/200x200/png/test.png'' ''d=200x200'' ''text/html,*/*'')"
proof -
  have d1: "params_get (URLSearchParams (querystring
      (request_accepting ''/blog/posts/cover.jpg'' ''d=300x300'' ''text/html,image/webp,*/*''))) ''d''
      = Some ''300x300''"
    by code_simp
  have s1: "split_on CHR ''x'' ''300x300'' = [''300'', ''300'']" by code_simp
  have u1: "uri (request_accepting ''/blog/posts/cover.jpg'' ''d=300x300'' ''text/html,image/webp,*/*'')
      = ''/'' @ ''blog/posts'' @ ''/'' @ ''cover'' @ ''.'' @ ''jpg''"
    by (simp add: request_accepting_def)
  have f1: "''webp'' = (case header_value (request.headers
        (request_accepting ''/blog/posts/cover.jpg'' ''d=300x300'' ''text/html,image/webp,*/*'')) ''accept'' of
          None \<Rightarrow> ''jpg''
        | Some v \<Rightarrow> if str_includes v ''webp'' then ''webp'' else ''jpg'')"
    by code_simp
  have d2: "params_get (URLSearchParams (querystring
      (request_accepting ''/image/test.png'' ''d=200x200'' ''text/html,*/*''))) ''d''
      = Some ''200x200''"
    by code_simp
  have s2: "split_on CHR ''x'' ''200x200'' = [''200'', ''200'']" by code_simp
  have u2: "uri (request_accepting ''/image/test.png'' ''d=200x200'' ''text/html,*/*'')
      = ''/'' @ ''image'' @ ''/'' @ ''test'' @ ''.'' @ ''png''"
    by (simp add: request_accepting_def)
  have f2: "''png'' = (case header_value (request.headers
        (request_accepting ''/image/test.png'' ''d=200x200'' ''text/html,*/*'')) ''accept'' of
          None \<Rightarrow> ''png''
        | Some v \<Rightarrow> if str_includes v ''webp'' then ''webp'' else ''png'')"
    by code_simp
  have a1: "\<forall>c \<in> set ''300x300''. is_ascii c" by (simp add: is_ascii_def)
  have a2: "\<forall>c \<in> set ''200x200''. is_ascii c" by (simp add: is_ascii_def)
  show ?thesis
    using rewritten_uri [OF d1 s1 a1 u1 _ _ _ _ _ _ f1]
      rewritten_uri [OF d2 s2 a2 u2 _ _ _ _ _ _ f2]
    by (simp add: request_accepting_def line_terminator_def)
qed

text \<open>
  C3, as the code has it. When the \<open>d\<close> value does not split on \<open>x\<close> into exactly two
  parts, that is when it does not hold exactly one \<open>x\<close>, the handler returns the request as
  it is. The handler counts the parts and does not look into them: a part may be empty.
\<close>

theorem malformed_dimension_passes_through:
  assumes "params_get (URLSearchParams (querystring request)) ''d'' = Some d"
    and "length (split_on CHR ''x'' d) \<noteq> 2"
  shows "viewer_handler request = Inr request"
  using assms
  by (simp add: viewer_handler_def Let_def split: option.split)

lemma one_x_iff_two_parts: "length (split_on CHR ''x'' d) = 2 \<longleftrightarrow> count_list d CHR ''x'' = 1"
  by (simp add: length_split_on)

theorem malformed_dimension_passes_through_witness:
  "viewer_handler (request_for ''/image/test.png'' ''d=invalid'')
     = Inr (request_for ''/image/test.png'' ''d=invalid'')
   \<and> viewer_handler (request_for ''/image/test.png'' ''d=1x2x3'')
     = Inr (request_for ''/image/test.png'' ''d=1x2x3'')"
proof -
  have d1: "params_get (URLSearchParams (querystring (request_for ''/image/test.png'' ''d=invalid''))) ''d''
      = Some ''invalid''"
    by code_simp
  have l1: "length (split_on CHR ''x'' ''invalid'') \<noteq> 2" by code_simp
  have d2: "params_get (URLSearchParams (querystring (request_for ''/image/test.png'' ''d=1x2x3''))) ''d''
      = Some ''1x2x3''"
    by code_simp
  have l2: "length (split_on CHR ''x'' ''1x2x3'') \<noteq> 2" by code_simp
  from malformed_dimension_passes_through [OF d1 l1] malformed_dimension_passes_through [OF d2 l2]
  show ?thesis by simp
qed

text \<open>
  C3, as stated, asks for two non-empty parts. The values \<open>300x\<close> and \<open>x300\<close> split
  into two parts of which one is empty, and the handler rewrites the URI with them.
\<close>

theorem empty_part_counterexample:
  "params_get (URLSearchParams ''d=300x'') ''d'' = Some ''300x''
   \<and> split_on CHR ''x'' ''300x'' = [''300'', '''']
   \<and> viewer_handler \<lparr>uri = ''/image/test.png'', querystring = ''d=300x'', headers = []\<rparr>
       = Inr \<lparr>uri = ''/resize/image/300x/png/test.png'', querystring = ''d=300x'', headers = []\<rparr>
   \<and> viewer_handler \<lparr>uri = ''/image/test.png'', querystring = ''d=300x'', headers = []\<rparr>
       \<noteq> Inr \<lparr>uri = ''/image/test.png'', querystring = ''d=300x'', headers = []\<rparr>
   \<and> params_get (URLSearchParams ''d=x300'') ''d'' = Some ''x300''
   \<and> split_on CHR ''x'' ''x300'' = ['''', ''300'']
   \<and> viewer_handler \<lparr>uri = ''/image/test.png'', querystring = ''d=x300'', headers = []\<rparr>
       = Inr \<lparr>uri = ''/resize/image/x300/png/test.png'', querystring = ''d=x300'', headers = []\<rparr>"
  by code_simp

text \<open>
  C9. The handler returns on every request and throws nothing: its result is the request
  as it is, or the request with another URI and every other field as it was.
\<close>

theorem viewer_handler_total:
  "viewer_handler request = Inr request
   \<or> (\<exists>u. viewer_handler request = Inr (request\<lparr>uri := u\<rparr>))"
proof (cases "params_has (URLSearchParams (querystring request)) ''d''")
  case False
  then show ?thesis by (simp add: viewer_handler_def)
next
  case True
  then obtain d where d: "params_get (URLSearchParams (querystring request)) ''d'' = Some d"
    using params_has_get by blast
  show ?thesis
  proof (cases "match_search URI_PATTERN (uri request)")
    case None
    with True show ?thesis by (simp add: viewer_handler_def)
  next
    case (Some uriMatch)
    show ?thesis
    proof (cases "length (split_on CHR ''x'' d) = 2")
      case False
      with True Some d show ?thesis by (simp add: viewer_handler_def)
    next
      case len: True
      with True Some d show ?thesis by (auto simp add: viewer_handler_def Let_def)
    qed
  qed
qed

text \<open>
  Three such requests: with an empty query string, with a \<open>d\<close> parameter and no accept
  header, and with a URI the pattern does not match.
\<close>

lemma viewer_handler_examples:
  "viewer_handler (request_for ''/image/test.png'' '''') = Inr (request_for ''/image/test.png'' '''')"
  "viewer_handler (request_for ''/image/test.png'' ''d=200x200'')
     = Inr (request_for ''/resize/image/200x200/png/test.png'' ''d=200x200'')"
  "viewer_handler (request_for ''/favicon'' ''d=200x200'') = Inr (request_for ''/favicon'' ''d=200x200'')"
  by code_simp+

section \<open>Properties of the origin-response handler\<close>

lemma base64_test_vectors:
  "base64 [77, 97, 110] = ''TWFu''" "base64 [77, 97] = ''TWE=''" "base64 [77] = ''TQ==''"
  by (simp_all add: b64_def)

text \<open>
  C4. When the status of the triggering response is neither the string 404 nor the string
  403, the handler returns that response as it is and sends no command to the object
  store, whatever the request and the outside world are.
\<close>

theorem other_status_passes_through:
  assumes "status response \<noteq> StatusString ''404''"
    and "status response \<noteq> StatusString ''403''"
  shows "origin_handler world request response = Inr (response, [])"
  using assms by (simp add: origin_handler_def)

theorem other_status_passes_through_witness:
  "status (response_with_status ''200'') \<noteq> StatusString ''404''
   \<and> status (response_with_status ''200'') \<noteq> StatusString ''403''
   \<and> origin_handler sample_world (request_for ''/resize/blog/300x300/webp/cover.jpg'' [])
        (response_with_status ''200'') = Inr (response_with_status ''200'', [])"
proof -
  have a: "status (response_with_status ''200'') \<noteq> StatusString ''404''"
    by (simp add: response_with_status_def)
  have b: "status (response_with_status ''200'') \<noteq> StatusString ''403''"
    by (simp add: response_with_status_def)
  from a b other_status_passes_through [OF a b] show ?thesis by simp
qed

text \<open>
  C2. When the status is 404 or 403, the key (the URI without its first character) matches
  the key pattern, and the parsed width or height is not strictly positive or exceeds
  4000, the handler returns the triggering response as it is. The pattern captures digits
  only, so a negative number in the path is a shape mismatch, which also returns the
  triggering response.
\<close>

theorem dimension_bounds_enforced:
  assumes "status response = StatusString ''404'' \<or> status response = StatusString ''403''"
    and "match_anchored KEY_PATTERN (drop 1 (uri request)) = Some keyMatch"
    and "parseInt10 (keyMatch ! 1) \<le> 0 \<or> parseInt10 (keyMatch ! 2) \<le> 0
         \<or> parseInt10 (keyMatch ! 1) > 4000 \<or> parseInt10 (keyMatch ! 2) > 4000"
  shows "response_of (origin_handler world request response) = Inr response"
  using assms by (auto simp add: origin_handler_def response_of_def MAX_DIMENSION_def Let_def)

lemma sample_key_too_large:
  "match_anchored KEY_PATTERN (drop 1 (uri (request_for ''/resize/blog/5000x5000/webp/cover.jpg'' [])))
     = Some [''blog'', ''5000'', ''5000'', ''webp'', ''cover.jpg'']"
  by code_simp

lemma sample_key_zero:
  "match_anchored KEY_PATTERN (drop 1 (uri (request_for ''/resize/blog/0x300/webp/cover.jpg'' [])))
     = Some [''blog'', ''0'', ''300'', ''webp'', ''cover.jpg'']"
  by code_simp

lemma sample_key_huge:
  "match_anchored KEY_PATTERN (drop 1 (uri (request_for ''/resize/blog/300x999999/webp/cover.jpg'' [])))
     = Some [''blog'', ''300'', ''999999'', ''webp'', ''cover.jpg'']"
  by code_simp

lemma sample_key_4001:
  "match_anchored KEY_PATTERN (drop 1 (uri (request_for ''/resize/blog/4001x300/webp/cover.jpg'' [])))
     = Some [''blog'', ''4001'', ''300'', ''webp'', ''cover.jpg'']"
  by code_simp

lemma sample_key_negative:
  "match_anchored KEY_PATTERN (drop 1 (uri (request_for ''/resize/blog/-1x300/webp/cover.jpg'' [])))
     = None"
  by code_simp

lemma sample_status_404:
  "status (response_with_status ''404'') = StatusString ''404''
   \<or> status (response_with_status ''404'') = StatusString ''403''"
  by (simp add: response_with_status_def)

theorem dimension_bounds_enforced_witness:
  "response_of (origin_handler sample_world
      (request_for ''/resize/blog/5000x5000/webp/cover.jpg'' []) (response_with_status ''404''))
     = Inr (response_with_status ''404'')
   \<and> response_of (origin_handler sample_world
      (request_for ''/resize/blog/0x300/webp/cover.jpg'' []) (response_with_status ''404''))
     = Inr (response_with_status ''404'')
   \<and> response_of (origin_handler sample_world
      (request_for ''/resize/blog/300x999999/webp/cover.jpg'' []) (response_with_status ''404''))
     = Inr (response_with_status ''404'')
   \<and> response_of (origin_handler sample_world
      (request_for ''/resize/blog/4001x300/webp/cover.jpg'' []) (response_with_status ''404''))
     = Inr (response_with_status ''404'')"
proof -
  have b1: "parseInt10 ([''blog'', ''5000'', ''5000'', ''webp'', ''cover.jpg''] ! 1) \<le> 0
      \<or> parseInt10 ([''blog'', ''5000'', ''5000'', ''webp'', ''cover.jpg''] ! 2) \<le> 0
      \<or> parseInt10 ([''blog'', ''5000'', ''5000'', ''webp'', ''cover.jpg''] ! 1) > 4000
      \<or> parseInt10 ([''blog'', ''5000'', ''5000'', ''webp'', ''cover.jpg''] ! 2) > 4000"
    by code_simp
  have b2: "parseInt10 ([''blog'', ''0'', ''300'', ''webp'', ''cover.jpg''] ! 1) \<le> 0
      \<or> parseInt10 ([''blog'', ''0'', ''300'', ''webp'', ''cover.jpg''] ! 2) \<le> 0
      \<or> parseInt10 ([''blog'', ''0'', ''300'', ''webp'', ''cover.jpg''] ! 1) > 4000
      \<or> parseInt10 ([''blog'', ''0'', ''300'', ''webp'', ''cover.jpg''] ! 2) > 4000"
    by code_simp
  have b3: "parseInt10 ([''blog'', ''300'', ''999999'', ''webp'', ''cover.jpg''] ! 1) \<le> 0
      \<or> parseInt10 ([''blog'', ''300'', ''999999'', ''webp'', ''cover.jpg''] ! 2) \<le> 0
      \<or> parseInt10 ([''blog'', ''300'', ''999999'', ''webp'', ''cover.jpg''] ! 1) > 4000
      \<or> parseInt10 ([''blog'', ''300'', ''999999'', ''webp'', ''cover.jpg''] ! 2) > 4000"
    by code_simp
  have b4: "parseInt10 ([''blog'', ''4001'', ''300'', ''webp'', ''cover.jpg''] ! 1) \<le> 0
      \<or> parseInt10 ([''blog'', ''4001'', ''300'', ''webp'', ''cover.jpg''] ! 2) \<le> 0
      \<or> parseInt10 ([''blog'', ''4001'', ''300'', ''webp'', ''cover.jpg''] ! 1) > 4000
      \<or> parseInt10 ([''blog'', ''4001'', ''300'', ''webp'', ''cover.jpg''] ! 2) > 4000"
    by code_simp
  show ?thesis
    using dimension_bounds_enforced [OF sample_status_404 sample_key_too_large b1, of sample_world]
      dimension_bounds_enforced [OF sample_status_404 sample_key_zero b2, of sample_world]
      dimension_bounds_enforced [OF sample_status_404 sample_key_huge b3, of sample_world]
      dimension_bounds_enforced [OF sample_status_404 sample_key_4001 b4, of sample_world]
    by simp
qed

text \<open>
  C10. When the key does not match the key pattern, or matches it with a parsed width or
  height that is not strictly positive or exceeds 4000, the handler returns the triggering
  response and has sent no command to the object store: the fetch of the original comes
  after both checks.
\<close>

theorem no_store_access_before_checks:
  assumes "match_anchored KEY_PATTERN (drop 1 (uri request)) = None
      \<or> (match_anchored KEY_PATTERN (drop 1 (uri request)) = Some keyMatch
          \<and> (parseInt10 (keyMatch ! 1) \<le> 0 \<or> parseInt10 (keyMatch ! 2) \<le> 0
               \<or> parseInt10 (keyMatch ! 1) > 4000 \<or> parseInt10 (keyMatch ! 2) > 4000))"
  shows "commands_of (origin_handler world request response) = []
         \<and> response_of (origin_handler world request response) = Inr response"
proof (cases "status response \<noteq> StatusString ''404'' \<and> status response \<noteq> StatusString ''403''")
  case True
  then show ?thesis
    by (simp add: origin_handler_def commands_of_def response_of_def)
next
  case False
  from assms show ?thesis
  proof
    assume "match_anchored KEY_PATTERN (drop 1 (uri request)) = None"
    with False show ?thesis
      by (simp add: origin_handler_def commands_of_def response_of_def)
  next
    assume "match_anchored KEY_PATTERN (drop 1 (uri request)) = Some keyMatch
          \<and> (parseInt10 (keyMatch ! 1) \<le> 0 \<or> parseInt10 (keyMatch ! 2) \<le> 0
               \<or> parseInt10 (keyMatch ! 1) > 4000 \<or> parseInt10 (keyMatch ! 2) > 4000)"
    with False show ?thesis
      by (auto simp add: origin_handler_def commands_of_def response_of_def
            MAX_DIMENSION_def Let_def)
  qed
qed

lemma sample_key_no_dimensions:
  "match_anchored KEY_PATTERN (drop 1 (uri (request_for ''/resize/blog/300x/webp/cover.jpg'' [])))
     = None"
  by code_simp

lemma sample_key_9000:
  "match_anchored KEY_PATTERN (drop 1 (uri (request_for ''/resize/blog/300x9000/jpg/cover.jpg'' [])))
     = Some [''blog'', ''300'', ''9000'', ''jpg'', ''cover.jpg'']"
  by code_simp

theorem no_store_access_before_checks_witness:
  "commands_of (origin_handler sample_world
      (request_for ''/resize/blog/300x/webp/cover.jpg'' []) (response_with_status ''404'')) = []
   \<and> response_of (origin_handler sample_world
      (request_for ''/resize/blog/300x/webp/cover.jpg'' []) (response_with_status ''404''))
       = Inr (response_with_status ''404'')
   \<and> commands_of (origin_handler sample_world
      (request_for ''/resize/blog/300x9000/jpg/cover.jpg'' []) (response_with_status ''403'')) = []
   \<and> response_of (origin_handler sample_world
      (request_for ''/resize/blog/300x9000/jpg/cover.jpg'' []) (response_with_status ''403''))
       = Inr (response_with_status ''403'')"
proof -
  have b: "parseInt10 ([''blog'', ''300'', ''9000'', ''jpg'', ''cover.jpg''] ! 1) \<le> 0
      \<or> parseInt10 ([''blog'', ''300'', ''9000'', ''jpg'', ''cover.jpg''] ! 2) \<le> 0
      \<or> parseInt10 ([''blog'', ''300'', ''9000'', ''jpg'', ''cover.jpg''] ! 1) > 4000
      \<or> parseInt10 ([''blog'', ''300'', ''9000'', ''jpg'', ''cover.jpg''] ! 2) > 4000"
    by code_simp
  show ?thesis
    using no_store_access_before_checks [OF disjI1, OF sample_key_no_dimensions,
        of sample_world "response_with_status ''404''"]
      no_store_access_before_checks [OF disjI2, OF conjI, OF sample_key_9000 b,
        of sample_world "response_with_status ''403''"]
    by simp
qed

text \<open>
  C7. When the status, shape and bounds checks pass and the fetch of the original throws,
  or the fetch succeeds and the image pipeline throws, the handler returns the triggering
  response as it is; it returns (\<open>Inr\<close>) and throws nothing. The one command sent is the
  fetch.
\<close>

theorem fetch_or_transform_failure_passes_through:
  assumes "status response = StatusString ''404'' \<or> status response = StatusString ''403''"
    and "match_anchored KEY_PATTERN (drop 1 (uri request)) = Some keyMatch"
    and "0 < parseInt10 (keyMatch ! 1)" and "0 < parseInt10 (keyMatch ! 2)"
    and "parseInt10 (keyMatch ! 1) \<le> 4000" and "parseInt10 (keyMatch ! 2) \<le> 4000"
    and "s3_get world BUCKET (''origin/'' @ keyMatch ! 0 @ ''/'' @ keyMatch ! 4) = Inl fetchError
      \<or> (s3_get world BUCKET (''origin/'' @ keyMatch ! 0 @ ''/'' @ keyMatch ! 4) = Inr imageBuffer
          \<and> sharp_resize world imageBuffer (parseInt10 (keyMatch ! 1)) (parseInt10 (keyMatch ! 2))
               (if keyMatch ! 3 = ''jpg'' then ''jpeg'' else keyMatch ! 3) = Inl transformError)"
  shows "origin_handler world request response =
           Inr (response, [GetObjectCommand BUCKET (''origin/'' @ keyMatch ! 0 @ ''/'' @ keyMatch ! 4)])"
  using assms
  by (auto simp add: origin_handler_def MAX_DIMENSION_def Let_def)

lemma sample_key_missing_original:
  "match_anchored KEY_PATTERN (drop 1 (uri (request_for ''/resize/blog/300x300/webp/missing.jpg'' [])))
     = Some [''blog'', ''300'', ''300'', ''webp'', ''missing.jpg'']"
  by code_simp

lemma sample_key_bad_format:
  "match_anchored KEY_PATTERN (drop 1 (uri (request_for ''/resize/blog/300x300/txt/cover.jpg'' [])))
     = Some [''blog'', ''300'', ''300'', ''txt'', ''cover.jpg'']"
  by code_simp

theorem fetch_or_transform_failure_passes_through_witness:
  "origin_handler sample_world (request_for ''/resize/blog/300x300/webp/missing.jpg'' [])
      (response_with_status ''404'')
     = Inr (response_with_status ''404'', [GetObjectCommand BUCKET ''origin/blog/missing.jpg''])
   \<and> origin_handler sample_world (request_for ''/resize/blog/300x300/txt/cover.jpg'' [])
      (response_with_status ''404'')
     = Inr (response_with_status ''404'', [GetObjectCommand BUCKET ''origin/blog/cover.jpg''])"
proof -
  have w1: "0 < parseInt10 ([''blog'', ''300'', ''300'', ''webp'', ''missing.jpg''] ! 1)"
    and h1: "0 < parseInt10 ([''blog'', ''300'', ''300'', ''webp'', ''missing.jpg''] ! 2)"
    and w1': "parseInt10 ([''blog'', ''300'', ''300'', ''webp'', ''missing.jpg''] ! 1) \<le> 4000"
    and h1': "parseInt10 ([''blog'', ''300'', ''300'', ''webp'', ''missing.jpg''] ! 2) \<le> 4000"
    by code_simp+
  have w2: "0 < parseInt10 ([''blog'', ''300'', ''300'', ''txt'', ''cover.jpg''] ! 1)"
    and h2: "0 < parseInt10 ([''blog'', ''300'', ''300'', ''txt'', ''cover.jpg''] ! 2)"
    and w2': "parseInt10 ([''blog'', ''300'', ''300'', ''txt'', ''cover.jpg''] ! 1) \<le> 4000"
    and h2': "parseInt10 ([''blog'', ''300'', ''300'', ''txt'', ''cover.jpg''] ! 2) \<le> 4000"
    by code_simp+
  have f1: "s3_get sample_world BUCKET
        (''origin/'' @ [''blog'', ''300'', ''300'', ''webp'', ''missing.jpg''] ! 0 @ ''/''
           @ [''blog'', ''300'', ''300'', ''webp'', ''missing.jpg''] ! 4) = Inl (S3Error ''NoSuchKey'')
      \<or> (s3_get sample_world BUCKET
        (''origin/'' @ [''blog'', ''300'', ''300'', ''webp'', ''missing.jpg''] ! 0 @ ''/''
           @ [''blog'', ''300'', ''300'', ''webp'', ''missing.jpg''] ! 4) = Inr []
          \<and> sharp_resize sample_world []
               (parseInt10 ([''blog'', ''300'', ''300'', ''webp'', ''missing.jpg''] ! 1))
               (parseInt10 ([''blog'', ''300'', ''300'', ''webp'', ''missing.jpg''] ! 2))
               (if [''blog'', ''300'', ''300'', ''webp'', ''missing.jpg''] ! 3 = ''jpg'' then ''jpeg''
                else [''blog'', ''300'', ''300'', ''webp'', ''missing.jpg''] ! 3)
              = Inl (SharpError ''unsupported format''))"
    by (simp add: sample_world_def)
  have f2: "s3_get sample_world BUCKET
        (''origin/'' @ [''blog'', ''300'', ''300'', ''txt'', ''cover.jpg''] ! 0 @ ''/''
           @ [''blog'', ''300'', ''300'', ''txt'', ''cover.jpg''] ! 4) = Inl (S3Error ''NoSuchKey'')
      \<or> (s3_get sample_world BUCKET
        (''origin/'' @ [''blog'', ''300'', ''300'', ''txt'', ''cover.jpg''] ! 0 @ ''/''
           @ [''blog'', ''300'', ''300'', ''txt'', ''cover.jpg''] ! 4) = Inr [77, 97, 110]
          \<and> sharp_resize sample_world [77, 97, 110]
               (parseInt10 ([''blog'', ''300'', ''300'', ''txt'', ''cover.jpg''] ! 1))
               (parseInt10 ([''blog'', ''300'', ''300'', ''txt'', ''cover.jpg''] ! 2))
               (if [''blog'', ''300'', ''300'', ''txt'', ''cover.jpg''] ! 3 = ''jpg'' then ''jpeg''
                else [''blog'', ''300'', ''300'', ''txt'', ''cover.jpg''] ! 3)
              = Inl (SharpError ''unsupported format''))"
    by (simp add: sample_world_def)
  show ?thesis
    using fetch_or_transform_failure_passes_through
        [OF sample_status_404 sample_key_missing_original w1 h1 w1' h1' f1]
      fetch_or_transform_failure_passes_through
        [OF sample_status_404 sample_key_bad_format w2 h2 w2' h2' f2]
    by simp
qed

text \<open>
  C5. When the status, shape and bounds checks pass, the fetch yields the original's bytes
  and the image pipeline yields the transformed bytes, the returned response has the
  number 200 as status, the base64 text of the transformed bytes as body, the marker
  \<open>base64\<close> as body encoding, and the headers of the triggering response with
  \<open>content-type\<close> set to \<open>image/\<close> followed by the output format: \<open>jpeg\<close> for the format
  token \<open>jpg\<close>, the token itself otherwise. Every other header reads as before.
\<close>

theorem success_response_synthesised:
  assumes "status response = StatusString ''404'' \<or> status response = StatusString ''403''"
    and "match_anchored KEY_PATTERN (drop 1 (uri request)) = Some keyMatch"
    and "0 < parseInt10 (keyMatch ! 1)" and "0 < parseInt10 (keyMatch ! 2)"
    and "parseInt10 (keyMatch ! 1) \<le> 4000" and "parseInt10 (keyMatch ! 2) \<le> 4000"
    and "sharpFormat = (if keyMatch ! 3 = ''jpg'' then ''jpeg'' else keyMatch ! 3)"
    and "s3_get world BUCKET (''origin/'' @ keyMatch ! 0 @ ''/'' @ keyMatch ! 4) = Inr imageBuffer"
    and "sharp_resize world imageBuffer (parseInt10 (keyMatch ! 1)) (parseInt10 (keyMatch ! 2))
           sharpFormat = Inr resizedBuffer"
  shows "response_of (origin_handler world request response) =
           Inr \<lparr>status = StatusNumber 200, statusDescription = ''OK'',
                headers = AList.update ''content-type''
                  [\<lparr>key = Some ''Content-Type'', hvalue = ''image/'' @ sharpFormat\<rparr>]
                  (headers response),
                body = Some (base64 resizedBuffer), bodyEncoding = Some ''base64''\<rparr>
         \<and> map_of (AList.update ''content-type''
                  [\<lparr>key = Some ''Content-Type'', hvalue = ''image/'' @ sharpFormat\<rparr>]
                  (headers response))
             = (map_of (headers response))(''content-type'' \<mapsto>
                  [\<lparr>key = Some ''Content-Type'', hvalue = ''image/'' @ sharpFormat\<rparr>])"
proof
  from assms(1-6) assms(8,9) [unfolded assms(7)]
  show "response_of (origin_handler world request response) =
           Inr \<lparr>status = StatusNumber 200, statusDescription = ''OK'',
                headers = AList.update ''content-type''
                  [\<lparr>key = Some ''Content-Type'', hvalue = ''image/'' @ sharpFormat\<rparr>]
                  (headers response),
                body = Some (base64 resizedBuffer), bodyEncoding = Some ''base64''\<rparr>"
    unfolding assms(7)
    by (auto simp add: origin_handler_def response_of_def MAX_DIMENSION_def Let_def)
next
  show "map_of (AList.update ''content-type''
                  [\<lparr>key = Some ''Content-Type'', hvalue = ''image/'' @ sharpFormat\<rparr>]
                  (headers response))
             = (map_of (headers response))(''content-type'' \<mapsto>
                  [\<lparr>key = Some ''Content-Type'', hvalue = ''image/'' @ sharpFormat\<rparr>])"
    by (rule update_conv')
qed

lemma sample_key_jpg:
  "match_anchored KEY_PATTERN (drop 1 (uri (request_for ''/resize/blog/300x300/jpg/cover.jpg'' [])))
     = Some [''blog'', ''300'', ''300'', ''jpg'', ''cover.jpg'']"
  by code_simp

lemma sample_key_jpg_bounds:
  "0 < parseInt10 ([''blog'', ''300'', ''300'', ''jpg'', ''cover.jpg''] ! 1)"
  "0 < parseInt10 ([''blog'', ''300'', ''300'', ''jpg'', ''cover.jpg''] ! 2)"
  "parseInt10 ([''blog'', ''300'', ''300'', ''jpg'', ''cover.jpg''] ! 1) \<le> 4000"
  "parseInt10 ([''blog'', ''300'', ''300'', ''jpg'', ''cover.jpg''] ! 2) \<le> 4000"
  by code_simp+

lemma sample_key_jpg_format:
  "''jpeg'' = (if [''blog'', ''300'', ''300'', ''jpg'', ''cover.jpg''] ! 3 = ''jpg'' then ''jpeg''
              else [''blog'', ''300'', ''300'', ''jpg'', ''cover.jpg''] ! 3)"
  by simp

lemma sample_key_jpg_fetch:
  "s3_get sample_world BUCKET
     (''origin/'' @ [''blog'', ''300'', ''300'', ''jpg'', ''cover.jpg''] ! 0 @ ''/''
        @ [''blog'', ''300'', ''300'', ''jpg'', ''cover.jpg''] ! 4) = Inr [77, 97, 110]"
  by (simp add: sample_world_def)

lemma sample_key_jpg_resize:
  "sharp_resize sample_world [77, 97, 110]
     (parseInt10 ([''blog'', ''300'', ''300'', ''jpg'', ''cover.jpg''] ! 1))
     (parseInt10 ([''blog'', ''300'', ''300'', ''jpg'', ''cover.jpg''] ! 2)) ''jpeg''
     = Inr [110, 97, 77]"
  by (simp add: sample_world_def)

theorem success_response_synthesised_witness:
  "response_of (origin_handler sample_world
      (request_for ''/resize/blog/300x300/jpg/cover.jpg'' []) (response_with_status ''404''))
   = Inr \<lparr>status = StatusNumber 200, statusDescription = ''OK'',
          headers = [(''content-type'', [\<lparr>key = Some ''Content-Type'', hvalue = ''image/jpeg''\<rparr>]),
                     (''server'', [\<lparr>key = Some ''Server'', hvalue = ''AmazonS3''\<rparr>])],
          body = Some ''bmFN'', bodyEncoding = Some ''base64''\<rparr>"
  using success_response_synthesised [OF sample_status_404 sample_key_jpg sample_key_jpg_bounds
      sample_key_jpg_format sample_key_jpg_fetch sample_key_jpg_resize]
  by (simp add: response_with_status_def b64_def)

text \<open>
  C6. On the same path the handler sends exactly one write to the object store: to the
  bucket, at the key of the triggering request (its URI without the leading slash), with
  the transformed bytes, the content type \<open>image/\<close> followed by the output format and the
  cache control \<open>max-age=86400\<close>. The result of the handler is the same whatever the
  outcome of that write is.
\<close>

theorem one_detached_write:
  assumes "status response = StatusString ''404'' \<or> status response = StatusString ''403''"
    and "match_anchored KEY_PATTERN (drop 1 (uri request)) = Some keyMatch"
    and "0 < parseInt10 (keyMatch ! 1)" and "0 < parseInt10 (keyMatch ! 2)"
    and "parseInt10 (keyMatch ! 1) \<le> 4000" and "parseInt10 (keyMatch ! 2) \<le> 4000"
    and "sharpFormat = (if keyMatch ! 3 = ''jpg'' then ''jpeg'' else keyMatch ! 3)"
    and "s3_get world BUCKET (''origin/'' @ keyMatch ! 0 @ ''/'' @ keyMatch ! 4) = Inr imageBuffer"
    and "sharp_resize world imageBuffer (parseInt10 (keyMatch ! 1)) (parseInt10 (keyMatch ! 2))
           sharpFormat = Inr resizedBuffer"
  shows "filter is_put (commands_of (origin_handler world request response)) =
           [PutObjectCommand BUCKET (drop 1 (uri request)) resizedBuffer
              (''image/'' @ sharpFormat) ''max-age=86400'']
         \<and> origin_handler (world\<lparr>s3_put := outcome\<rparr>) request response
             = origin_handler world request response"
proof
  from assms(1-6) assms(8,9) [unfolded assms(7)]
  show "filter is_put (commands_of (origin_handler world request response)) =
           [PutObjectCommand BUCKET (drop 1 (uri request)) resizedBuffer
              (''image/'' @ sharpFormat) ''max-age=86400'']"
    unfolding assms(7)
    by (auto simp add: origin_handler_def commands_of_def MAX_DIMENSION_def CACHE_CONTROL_def
          Let_def)
next
  show "origin_handler (world\<lparr>s3_put := outcome\<rparr>) request response
          = origin_handler world request response"
    by (simp add: origin_handler_def Let_def split: option.split sum.split)
qed

lemma sample_key_webp:
  "match_anchored KEY_PATTERN (drop 1 (uri (request_for ''/resize/blog/300x300/webp/cover.jpg'' [])))
     = Some [''blog'', ''300'', ''300'', ''webp'', ''cover.jpg'']"
  by code_simp

lemma sample_key_webp_bounds:
  "0 < parseInt10 ([''blog'', ''300'', ''300'', ''webp'', ''cover.jpg''] ! 1)"
  "0 < parseInt10 ([''blog'', ''300'', ''300'', ''webp'', ''cover.jpg''] ! 2)"
  "parseInt10 ([''blog'', ''300'', ''300'', ''webp'', ''cover.jpg''] ! 1) \<le> 4000"
  "parseInt10 ([''blog'', ''300'', ''300'', ''webp'', ''cover.jpg''] ! 2) \<le> 4000"
  by code_simp+

lemma sample_key_webp_format:
  "''webp'' = (if [''blog'', ''300'', ''300'', ''webp'', ''cover.jpg''] ! 3 = ''jpg'' then ''jpeg''
              else [''blog'', ''300'', ''300'', ''webp'', ''cover.jpg''] ! 3)"
  by simp

lemma sample_key_webp_fetch:
  "s3_get sample_world BUCKET
     (''origin/'' @ [''blog'', ''300'', ''300'', ''webp'', ''cover.jpg''] ! 0 @ ''/''
        @ [''blog'', ''300'', ''300'', ''webp'', ''cover.jpg''] ! 4) = Inr [77, 97, 110]"
  by (simp add: sample_world_def)

lemma sample_key_webp_resize:
  "sharp_resize sample_world [77, 97, 110]
     (parseInt10 ([''blog'', ''300'', ''300'', ''webp'', ''cover.jpg''] ! 1))
     (parseInt10 ([''blog'', ''300'', ''300'', ''webp'', ''cover.jpg''] ! 2)) ''webp''
     = Inr [110, 97, 77]"
  by (simp add: sample_world_def)

theorem one_detached_write_witness:
  "filter is_put (commands_of (origin_handler sample_world
      (request_for ''/resize/blog/300x300/webp/cover.jpg'' []) (response_with_status ''404'')))
     = [PutObjectCommand BUCKET ''resize/blog/300x300/webp/cover.jpg'' [110, 97, 77]
          ''image/webp'' ''max-age=86400'']
   \<and> origin_handler (sample_world\<lparr>s3_put := failing_put\<rparr>)
        (request_for ''/resize/blog/300x300/webp/cover.jpg'' []) (response_with_status ''404'')
      = origin_handler sample_world
        (request_for ''/resize/blog/300x300/webp/cover.jpg'' []) (response_with_status ''404'')"
  using one_detached_write [OF sample_status_404 sample_key_webp sample_key_webp_bounds
      sample_key_webp_format sample_key_webp_fetch sample_key_webp_resize, of failing_put]
  by (simp add: request_for_def)

section \<open>The derived key between the two handlers\<close>

text \<open>
  C8. Take a subpath, a width, a height, a file name and an extension that are valid: all
  non-empty and free of line terminators, the width and the height strings of decimal
  digits, the file name and the extension without a slash, the extension without a dot.
  For a request for \<open>/subpath/filename.extension\<close> with \<open>d=widthxheight\<close>, whatever
  format the handler negotiates (\<open>webp\<close> or the extension), the URI the viewer-request
  handler produces is a slash followed by the derived key
  \<open>resize/subpath/widthxheight/format/filename.extension\<close>, and the key pattern of the
  origin-response handler, on that URI without its first character, captures the same
  subpath, width, height, format and file name with extension.
\<close>

theorem derived_key_round_trip:
  assumes u: "uri request = ''/'' @ subpath @ ''/'' @ filename @ ''.'' @ extension"
    and d: "params_get (URLSearchParams (querystring request)) ''d'' = Some (width @ ''x'' @ height)"
    and sp: "subpath \<noteq> []" "\<forall>c \<in> set subpath. \<not> line_terminator c"
    and w: "width \<noteq> []" "\<forall>c \<in> set width. digit c"
    and h: "height \<noteq> []" "\<forall>c \<in> set height. digit c"
    and fn: "filename \<noteq> []" "CHR ''/'' \<notin> set filename" "\<forall>c \<in> set filename. \<not> line_terminator c"
    and ex: "extension \<noteq> []" "CHR ''.'' \<notin> set extension" "CHR ''/'' \<notin> set extension"
      "\<forall>c \<in> set extension. \<not> line_terminator c"
    and fmt: "format = (case header_value (request.headers request) ''accept'' of
                          None \<Rightarrow> extension
                        | Some v \<Rightarrow> if str_includes v ''webp'' then ''webp'' else extension)"
    and dk: "derivedKey = ''resize/'' @ subpath @ ''/'' @ width @ ''x'' @ height @ ''/'' @ format
                      @ ''/'' @ filename @ ''.'' @ extension"
  shows "viewer_handler request = Inr (request\<lparr>uri := ''/'' @ derivedKey\<rparr>)
         \<and> match_anchored KEY_PATTERN (drop 1 (''/'' @ derivedKey))
             = Some [subpath, width, height, format, filename @ ''.'' @ extension]"
proof
  have "split_on CHR ''x'' (width @ ''x'' @ height) = [width, height]"
    using digit_not_x [OF w(2)] digit_not_x [OF h(2)] by (simp add: split_on_two)
  moreover from sp have "\<forall>c \<in> set subpath. dot c"
    by (simp add: dot_def)
  with sp(1) fn(1,2) ex(1,2)
  have "match_search URI_PATTERN (uri request) = Some [subpath, filename, extension]"
    unfolding u by (intro uri_pattern_match)
  ultimately
  have "viewer_handler request =
          Inr (request\<lparr>uri := ''/resize/'' @ subpath @ ''/'' @ width @ ''x'' @ height @ ''/''
                 @ format @ ''/'' @ filename @ ''.'' @ extension\<rparr>)"
    unfolding fmt using d by (intro viewer_handler_on_match)
  then show "viewer_handler request = Inr (request\<lparr>uri := ''/'' @ derivedKey\<rparr>)"
    unfolding dk by simp
next
  have f: "format = ''webp'' \<or> format = extension"
    unfolding fmt by (simp split: option.split)
  then have f1: "format \<noteq> []" and f2: "CHR ''/'' \<notin> set format"
    using ex by auto
  from sp have sp': "\<forall>c \<in> set subpath. dot c" by (simp add: dot_def)
  have n1: "filename @ ''.'' @ extension \<noteq> []" using fn by simp
  have n2: "\<forall>c \<in> set (filename @ ''.'' @ extension). dot c"
    using fn(3) ex(4) by (auto simp add: dot_def line_terminator_def)
  have n3: "CHR ''/'' \<notin> set (filename @ ''.'' @ extension)"
    using fn(2) ex(3) by simp
  from key_pattern_match [OF sp(1) sp' w h f1 f2 n1 n2 n3]
  show "match_anchored KEY_PATTERN (drop 1 (''/'' @ derivedKey))
          = Some [subpath, width, height, format, filename @ ''.'' @ extension]"
    unfolding dk by simp
qed

lemma sample_round_trip_query:
  "params_get (URLSearchParams (querystring
     (request_accepting ''/blog/posts/cover.jpg'' ''d=300x300'' ''text/html,image/webp,*/*''))) ''d''
     = Some (''300'' @ ''x'' @ ''300'')"
  by code_simp

lemma sample_round_trip_format:
  "''webp'' = (case header_value (request.headers
       (request_accepting ''/blog/posts/cover.jpg'' ''d=300x300'' ''text/html,image/webp,*/*'')) ''accept'' of
         None \<Rightarrow> ''jpg''
       | Some v \<Rightarrow> if str_includes v ''webp'' then ''webp'' else ''jpg'')"
  by code_simp

theorem derived_key_round_trip_witness:
  "viewer_handler (request_accepting ''/blog/posts/cover.jpg'' ''d=300x300'' ''text/html,image/webp,*/*'')
     = Inr (request_accepting ''/resize/blog/posts/300x300/webp/cover.jpg'' ''d=300x300''
              ''text/html,image/webp,*/*'')
   \<and> match_anchored KEY_PATTERN ''resize/blog/posts/300x300/webp/cover.jpg''
       = Some [''blog/posts'', ''300'', ''300'', ''webp'', ''cover.jpg'']"
proof -
  have u: "uri (request_accepting ''/blog/posts/cover.jpg'' ''d=300x300'' ''text/html,image/webp,*/*'')
      = ''/'' @ ''blog/posts'' @ ''/'' @ ''cover'' @ ''.'' @ ''jpg''"
    by (simp add: request_accepting_def)
  have k: "''resize/blog/posts/300x300/webp/cover.jpg''
      = ''resize/'' @ ''blog/posts'' @ ''/'' @ ''300'' @ ''x'' @ ''300'' @ ''/'' @ ''webp''
          @ ''/'' @ ''cover'' @ ''.'' @ ''jpg''"
    by simp
  show ?thesis
    using derived_key_round_trip [OF u sample_round_trip_query _ _ _ _ _ _ _ _ _ _ _ _ _
        sample_round_trip_format k]
    by (simp add: request_accepting_def line_terminator_def digit_def)
qed

text \<open>
  Where the conditions on the parts matter. The \<open>.\<close> of the URI pattern does not accept a
  line terminator, so a match can start at a later slash; the extension class accepts a
  slash, so an extension can run across a path segment, and the key pattern then reads a
  shorter format.
\<close>

lemma pattern_corner_cases:
  "match_search URI_PATTERN (''/a'' @ [CHR 0x0A] @ ''b/c/f.e'') = Some [''c'', ''f'', ''e'']"
  "match_search URI_PATTERN ''/images/v1.2/photo'' = Some [''images'', ''v1'', ''2/photo'']"
  "viewer_handler (request_for ''/images/v1.2/photo'' ''d=10x10'')
     = Inr (request_for ''/resize/images/10x10/2/photo/v1.2/photo'' ''d=10x10'')"
  "match_anchored KEY_PATTERN ''resize/images/10x10/2/photo/v1.2/photo''
     = Some [''images'', ''10'', ''10'', ''2'', ''photo/v1.2/photo'']"
  by code_simp+

end
